theory Spec2Isabelle
  imports Main
begin

section \<open>Definition-time validation of Halide functions (src/Function.cpp)\<close>

text \<open>
  A shallow embedding of \<^verbatim>\<open>Function::define\<close>, \<^verbatim>\<open>Function::define_reduction\<close>,
  \<^verbatim>\<open>Function::define_extern\<close> and of the two visitors \<^verbatim>\<open>CheckVars\<close> and
  \<^verbatim>\<open>CountSelfReferences\<close>. A failing \<^verbatim>\<open>assertf\<close> or \<^verbatim>\<open>assert(false)\<close> aborts the
  process; here it is a result \<open>Inl\<close> that carries the error and, for the three operations
  of \<^verbatim>\<open>Function\<close>, the state that had been reached when the assertion failed.
\<close>

subsection \<open>Data model\<close>

text \<open>
  The declarations of \<^verbatim>\<open>IR.h\<close>, \<^verbatim>\<open>Function.h\<close>, \<^verbatim>\<open>Schedule.h\<close> and
  \<^verbatim>\<open>Reduction.h\<close> are used by the code but are not part of the source at hand. The types
  below hold the fields that \<^verbatim>\<open>Function.cpp\<close> reads and writes.
\<close>

datatype TypeCode = TInt | TUInt | TFloat | THandle

text \<open>\<^verbatim>\<open>Type\<close>: code, bits, width.\<close>

datatype Type = Type TypeCode nat nat

text \<open>\<^verbatim>\<open>Parameter(type, is_buffer, name)\<close>.\<close>

record Parameter =
  p_type :: Type
  p_is_buffer :: bool
  p_name :: string

record ReductionVariable =
  var :: string

text \<open>
  A \<^verbatim>\<open>ReductionDomain\<close> is a handle on a shared object: \<open>None\<close> is the undefined handle,
  \<open>rdom_ptr\<close> is the address of the object, and \<^verbatim>\<open>same_as\<close> compares addresses.
\<close>

record ReductionDomainContents =
  rdom_ptr :: nat
  domain :: "ReductionVariable list"

type_synonym ReductionDomain = "ReductionDomainContents option"

definition same_as :: "ReductionDomain \<Rightarrow> ReductionDomain \<Rightarrow> bool" where
  "same_as a b = (map_option rdom_ptr a = map_option rdom_ptr b)"

datatype CallType = Image | Extern | Halide | Intrinsic

text \<open>
  Expression nodes. The first field of every node is its address: two occurrences of a
  shared node carry the same address, and that address is what \<^verbatim>\<open>IRGraphVisitor\<close> keeps
  in its \<^verbatim>\<open>visited\<close> set and \<^verbatim>\<open>CountSelfReferences\<close> in its set of calls. The second
  field is the node's type. A \<open>Call\<close> has a name, a call type, the address of the
  \<^verbatim>\<open>FunctionContents\<close> its \<^verbatim>\<open>func\<close> handle points to (if any) and its arguments.
  \<open>Other\<close> stands for every node kind that \<^verbatim>\<open>Function.cpp\<close> does not override
  (constants, arithmetic, casts, selects, loads, ...), with its child expressions.
\<close>

datatype expr =
    Variable nat Type string "Parameter option" ReductionDomain
  | Let_node nat Type string expr expr
  | Call nat Type string CallType "nat option" "expr list"
  | Other nat Type "expr list"

fun node_ptr :: "expr \<Rightarrow> nat" where
  "node_ptr (Variable p t n pa rd) = p"
| "node_ptr (Let_node p t n v b) = p"
| "node_ptr (Call p t n ct f as) = p"
| "node_ptr (Other p t cs) = p"

fun type_of :: "expr \<Rightarrow> Type" where
  "type_of (Variable p t n pa rd) = t"
| "type_of (Let_node p t n v b) = t"
| "type_of (Call p t n ct f as) = t"
| "type_of (Other p t cs) = t"

text \<open>An \<^verbatim>\<open>Expr\<close> is a handle: \<open>None\<close> is the undefined expression.\<close>

type_synonym Expr = "expr option"

definition defined :: "'a option \<Rightarrow> bool" where
  "defined h = (h \<noteq> None)"

datatype ForType = Serial | Parallel | Vectorized | Unrolled

record Dim =
  dim_var :: string
  for_type :: ForType

record Schedule =
  dims :: "Dim list"
  storage_dims :: "string list"

definition empty_schedule :: Schedule where
  "empty_schedule = \<lparr>dims = [], storage_dims = []\<rparr>"

record ReductionDefinition =
  r_args :: "expr list"
  r_values :: "expr list"
  r_domain :: ReductionDomain
  r_schedule :: Schedule

text \<open>
  \<^verbatim>\<open>FunctionContents\<close>, the object behind a \<^verbatim>\<open>Function\<close> handle. \<open>contents_ptr\<close> is
  its address (what \<^verbatim>\<open>c->func.same_as(*func)\<close> compares). Extern arguments are
  never inspected by the code; they are kept as the addresses of the argument objects.
\<close>

record FunctionContents =
  contents_ptr :: nat
  ref_count :: int
  name :: string
  args :: "string list"
  fun_values :: "expr list"
  output_types :: "Type list"
  output_buffers :: "Parameter list"
  schedule :: Schedule
  reductions :: "ReductionDefinition list"
  extern_function_name :: string
  extern_arguments :: "nat list"

text \<open>What the code writes to \<^verbatim>\<open>std::cerr\<close> without aborting.\<close>

datatype diagnostic = HidesEarlierDefinitions nat string

text \<open>
  The program state the three operations work on: the function object, the static
  \<^verbatim>\<open>rand_counter\<close>, the static counters of \<^verbatim>\<open>unique_name\<close>, and the advisories written so far.
\<close>

record state =
  contents :: FunctionContents
  rand_counter :: int
  instances :: "char \<Rightarrow> nat"
  cerr :: "diagnostic list"

datatype error =
    ExternHasNoPureDefinition
  | NeedsName
  | UndefinedExpression
  | UnresolvedIdentifier string
  | ConflictingReductionDomain
  | InvalidRecursiveReference
  | PureArgsOutOfRange
  | EmptyArgumentName nat
  | DuplicateArgumentName nat nat
  | PureDefinitionHasReductionDomain
  | AlreadyDefined
  | MissingPureDefinition
  | ArityMismatch
  | TypeMismatch
  | CycleAccountingViolation
  | PureHasNoExternDefinition
  | ExternAlreadyDefined
  | NegativeDimensionality

subsection \<open>The scope validator \<^verbatim>\<open>CheckVars\<close>\<close>

text \<open>
  The fields of \<^verbatim>\<open>struct CheckVars\<close>, together with the \<^verbatim>\<open>visited\<close> set it inherits
  from \<^verbatim>\<open>IRGraphVisitor\<close>. Of the \<^verbatim>\<open>Function\<close> it refers to only the name is read
  (and the debug information, for the text of messages). \<^verbatim>\<open>Scope<int>\<close> is used with the
  value 0 only, so \<open>defined_internally\<close> is the list of the names pushed and not yet popped.
\<close>

record CheckVars =
  pure_args :: "string list"
  reduction_domain :: ReductionDomain
  defined_internally :: "string list"
  func_name :: string
  visited :: "nat set"

definition CheckVars_init :: "string \<Rightarrow> string list \<Rightarrow> CheckVars" where
  "CheckVars_init fname pargs =
     \<lparr>pure_args = pargs, reduction_domain = None, defined_internally = [],
      func_name = fname, visited = {}\<rparr>"

text \<open>\<^verbatim>\<open>CheckVars::visit(const Variable *)\<close>\<close>

definition visit_Variable ::
  "CheckVars \<Rightarrow> string \<Rightarrow> Parameter option \<Rightarrow> ReductionDomain \<Rightarrow> error + CheckVars" where
  "visit_Variable c vname vparam vrdom =
     (if defined vparam then Inr c
      else if vname \<in> set (defined_internally c) then Inr c
      else if vname \<in> set (pure_args c) then Inr c
      else if defined vrdom then
        (if \<not> defined (reduction_domain c) then Inr (c\<lparr>reduction_domain := vrdom\<rparr>)
         else if same_as vrdom (reduction_domain c) then Inr c
         else Inl ConflictingReductionDomain)
      else Inl (UnresolvedIdentifier vname))"

text \<open>\<^verbatim>\<open>op->args[i].as<Variable>()\<close> followed by \<^verbatim>\<open>var && var->name == p\<close>.\<close>

fun is_var_named :: "string \<Rightarrow> expr \<Rightarrow> bool" where
  "is_var_named p (Variable a t n pa rd) = (n = p)"
| "is_var_named p _ = False"

text \<open>
  The loop of \<^verbatim>\<open>CheckVars::visit(const Call *)\<close> over the arguments of a call to the
  function itself, from index \<open>i\<close> on. \<^verbatim>\<open>pure_args[i]\<close> is read without a bounds check;
  a read past the end of the vector is the result \<open>PureArgsOutOfRange\<close>.
\<close>

function self_call_loop :: "string list \<Rightarrow> expr list \<Rightarrow> nat \<Rightarrow> error option" where
  "self_call_loop pargs as i =
     (if i < length as then
        (if \<not> i < length pargs then Some PureArgsOutOfRange
         else if pargs ! i \<noteq> [] \<and> \<not> is_var_named (pargs ! i) (as ! i)
           then Some InvalidRecursiveReference
         else self_call_loop pargs as (Suc i))
      else None)"
  by pat_completeness auto
termination
  by (relation "measure (\<lambda>(pargs, as, i). length as - i)") auto

declare self_call_loop.simps [simp del]

text \<open>
  Modelled from the spec: \<^verbatim>\<open>IRGraphVisitor\<close> (declared in a header that is not part of the
  source) is the "visitor abstraction that visits each distinct shared node once": its
  \<^verbatim>\<open>include\<close> skips a node whose address is in \<^verbatim>\<open>visited\<close> and otherwise records the
  address and dispatches to \<^verbatim>\<open>visit\<close>; its default \<^verbatim>\<open>visit\<close> methods include the children.

  \<open>accept_cv\<close> is \<^verbatim>\<open>e.accept(&check)\<close>, the dispatch to the \<^verbatim>\<open>visit\<close> methods of
  \<^verbatim>\<open>CheckVars\<close>: the three it overrides and the inherited one for every other node.
\<close>

fun accept_cv :: "CheckVars \<Rightarrow> expr \<Rightarrow> error + CheckVars"
  and include_cv :: "CheckVars \<Rightarrow> expr \<Rightarrow> error + CheckVars"
  and include_list_cv :: "CheckVars \<Rightarrow> expr list \<Rightarrow> error + CheckVars" where
  "accept_cv c (Variable a t n pa rd) = visit_Variable c n pa rd"
| "accept_cv c (Let_node a t n v b) =
     (case accept_cv c v of
        Inl e \<Rightarrow> Inl e
      | Inr c1 \<Rightarrow>
          (case accept_cv (c1\<lparr>defined_internally := n # defined_internally c1\<rparr>) b of
             Inl e \<Rightarrow> Inl e
           | Inr c2 \<Rightarrow> Inr (c2\<lparr>defined_internally := remove1 n (defined_internally c2)\<rparr>)))"
| "accept_cv c (Call a t n ct f as) =
     (case include_list_cv c as of
        Inl e \<Rightarrow> Inl e
      | Inr c1 \<Rightarrow>
          (if n = func_name c1 \<and> ct = Halide then
             (case self_call_loop (pure_args c1) as 0 of
                Some e \<Rightarrow> Inl e
              | None \<Rightarrow> Inr c1)
           else Inr c1))"
| "accept_cv c (Other a t cs) = include_list_cv c cs"
| "include_cv c e =
     (if node_ptr e \<in> visited c then Inr c
      else accept_cv (c\<lparr>visited := insert (node_ptr e) (visited c)\<rparr>) e)"
| "include_list_cv c [] = Inr c"
| "include_list_cv c (e # es) =
     (case include_cv c e of
        Inl err \<Rightarrow> Inl err
      | Inr c1 \<Rightarrow> include_list_cv c1 es)"

text \<open>\<^verbatim>\<open>for (i ...) exprs[i].accept(&check)\<close>\<close>

fun accept_all_cv :: "CheckVars \<Rightarrow> expr list \<Rightarrow> error + CheckVars" where
  "accept_all_cv c [] = Inr c"
| "accept_all_cv c (e # es) =
     (case accept_cv c e of
        Inl err \<Rightarrow> Inl err
      | Inr c1 \<Rightarrow> accept_all_cv c1 es)"

subsection \<open>The self-reference counter \<^verbatim>\<open>CountSelfReferences\<close>\<close>

text \<open>
  The fields of \<^verbatim>\<open>struct CountSelfReferences\<close>: the set of the addresses of the call
  nodes collected, the address of the contents of the function looked for, and the
  inherited \<^verbatim>\<open>visited\<close> set.
\<close>

record CountSelfReferences =
  calls :: "nat set"
  func :: nat
  visited_csr :: "nat set"

definition CountSelfReferences_init :: "nat \<Rightarrow> CountSelfReferences" where
  "CountSelfReferences_init this = \<lparr>calls = {}, func = this, visited_csr = {}\<rparr>"

text \<open>
  \<^verbatim>\<open>e.accept(&counter)\<close>. \<^verbatim>\<open>CountSelfReferences\<close> overrides \<^verbatim>\<open>visit(const Call *)\<close> only,
  and its body does not call \<^verbatim>\<open>IRGraphVisitor::visit\<close>: the arguments of a call are not
  visited. Every other node is handled by the inherited methods, which include the
  children (a variable has none).
\<close>

fun accept_csr :: "CountSelfReferences \<Rightarrow> expr \<Rightarrow> CountSelfReferences"
  and include_csr :: "CountSelfReferences \<Rightarrow> expr \<Rightarrow> CountSelfReferences"
  and include_list_csr :: "CountSelfReferences \<Rightarrow> expr list \<Rightarrow> CountSelfReferences" where
  "accept_csr c (Variable a t n pa rd) = c"
| "accept_csr c (Let_node a t n v b) = include_csr (include_csr c v) b"
| "accept_csr c (Call a t n ct f as) =
     (if f = Some (func c) then c\<lparr>calls := insert a (calls c)\<rparr> else c)"
| "accept_csr c (Other a t cs) = include_list_csr c cs"
| "include_csr c e =
     (if node_ptr e \<in> visited_csr c then c
      else accept_csr (c\<lparr>visited_csr := insert (node_ptr e) (visited_csr c)\<rparr>) e)"
| "include_list_csr c [] = c"
| "include_list_csr c (e # es) = include_list_csr (include_csr c e) es"

text \<open>\<^verbatim>\<open>for (i ...) exprs[i].accept(&counter)\<close>\<close>

fun accept_all_csr :: "CountSelfReferences \<Rightarrow> expr list \<Rightarrow> CountSelfReferences" where
  "accept_all_csr c [] = c"
| "accept_all_csr c (e # es) = accept_all_csr (accept_csr c e) es"

text \<open>
  The loop that follows the count: \<open>n\<close> times \<^verbatim>\<open>ref_count.decrement()\<close> and the assertion
  that the count is not zero. \<open>Inl\<close> is the count at which the assertion failed.
\<close>

fun decrement_loop :: "nat \<Rightarrow> int \<Rightarrow> int + int" where
  "decrement_loop 0 rc = Inr rc"
| "decrement_loop (Suc n) rc =
     (if rc - 1 = 0 then Inl (rc - 1) else decrement_loop n (rc - 1))"

subsection \<open>Helpers declared elsewhere\<close>

text \<open>
  Modelled from the spec: the accessors of \<^verbatim>\<open>Function\<close> (declared in \<^verbatim>\<open>Function.h\<close>).
  The output expressions are "empty until define is called", the extern metadata is
  optional, and the dimensionality is "the pure definition's argument count".
\<close>

definition has_pure_definition :: "FunctionContents \<Rightarrow> bool" where
  "has_pure_definition f = (fun_values f \<noteq> [])"

definition has_reduction_definition :: "FunctionContents \<Rightarrow> bool" where
  "has_reduction_definition f = (reductions f \<noteq> [])"

definition has_extern_definition :: "FunctionContents \<Rightarrow> bool" where
  "has_extern_definition f = (extern_function_name f \<noteq> [])"

definition dimensions :: "FunctionContents \<Rightarrow> int" where
  "dimensions f = int (length (args f))"

text \<open>
  Modelled from the spec: \<^verbatim>\<open>int_to_string\<close> (declared in \<^verbatim>\<open>Util.h\<close>) gives the index in
  the buffer name \<^verbatim>\<open><function-name>.<index>\<close>: the decimal digits of a number.
\<close>

definition digit_char :: "nat \<Rightarrow> char" where
  "digit_char d = char_of (48 + d)"

fun int_to_string :: "nat \<Rightarrow> string" where
  "int_to_string n =
     (if n < 10 then [digit_char n]
      else int_to_string (n div 10) @ [digit_char (n mod 10)])"

declare int_to_string.simps [simp del]

text \<open>
  Modelled from the spec: \<^verbatim>\<open>unique_name\<close> (declared in \<^verbatim>\<open>Util.h\<close>) supplies "fresh,
  globally-unique" names: the prefix followed by the number of names already handed out
  for that prefix, which is then incremented.
\<close>

definition unique_name :: "char \<Rightarrow> state \<Rightarrow> string \<times> state" where
  "unique_name prefix s =
     (prefix # int_to_string (instances s prefix),
      s\<lparr>instances := (instances s)(prefix := Suc (instances s prefix))\<rparr>)"

text \<open>
  Modelled from the spec: the two passes applied to the expressions of a definition,
  \<^verbatim>\<open>common_subexpression_elimination\<close>, "(Expr) -> Expr", and \<^verbatim>\<open>lower_random\<close>,
  "(Expr, free_vars: [string], generation: int) -> Expr". They are parameters of the
  operations. Applied to a handle, they leave the undefined handle undefined, which is
  what the assertion after the pass in \<^verbatim>\<open>define_reduction\<close> looks for.
\<close>

record passes =
  common_subexpression_elimination :: "expr \<Rightarrow> expr"
  lower_random :: "expr \<Rightarrow> string list \<Rightarrow> int \<Rightarrow> expr"

subsection \<open>\<^verbatim>\<open>Function::define\<close>\<close>

text \<open>
  The loop that checks that the argument names are non-empty and pairwise distinct, from
  index \<open>i\<close> on; the inner loop looks for the first \<open>j < i\<close> with the same name.
\<close>

function check_arg_names :: "string list \<Rightarrow> nat \<Rightarrow> error option" where
  "check_arg_names as i =
     (if i < length as then
        (if as ! i = [] then Some (EmptyArgumentName i)
         else
           (case find (\<lambda>j. as ! i = as ! j) [0..<i] of
              Some j \<Rightarrow> Some (DuplicateArgumentName j i)
            | None \<Rightarrow> check_arg_names as (Suc i)))
      else None)"
  by pat_completeness auto
termination
  by (relation "measure (\<lambda>(as, i). length as - i)") auto

declare check_arg_names.simps [simp del]

text \<open>The name of the \<open>i\<close>-th of \<open>n\<close> output buffers.\<close>

definition buffer_name :: "string \<Rightarrow> nat \<Rightarrow> nat \<Rightarrow> string" where
  "buffer_name fname n i =
     (if n > 1 then fname @ CHR ''.'' # int_to_string i else fname)"

definition Function_define ::
  "passes \<Rightarrow> string list \<Rightarrow> Expr list \<Rightarrow> state \<Rightarrow> (error \<times> state) + state" where
  "Function_define P as vals s =
     (let f = contents s in
      if has_extern_definition f then Inl (ExternHasNoPureDefinition, s)
      else if name f = [] then Inl (NeedsName, s)
      else if \<not> list_all defined vals then Inl (UndefinedExpression, s)
      else
        (case accept_all_cv (CheckVars_init (name f) as) (map the vals) of
           Inl e \<Rightarrow> Inl (e, s)
         | Inr check \<Rightarrow>
             (case check_arg_names as 0 of
                Some e \<Rightarrow> Inl (e, s)
              | None \<Rightarrow>
                  (let vals1 = map (common_subexpression_elimination P) (map the vals);
                       tag = rand_counter s;
                       s1 = s\<lparr>rand_counter := tag + 1\<rparr>;
                       vals2 = map (\<lambda>v. lower_random P v as tag) vals1
                   in
                   if defined (reduction_domain check)
                     then Inl (PureDefinitionHasReductionDomain, s1)
                   else if fun_values f \<noteq> [] then Inl (AlreadyDefined, s1)
                   else
                     Inr (s1\<lparr>contents := f
                       \<lparr>args := as,
                        fun_values := vals2,
                        output_types := map type_of vals2,
                        output_buffers := output_buffers f @
                          map (\<lambda>i. \<lparr>p_type = type_of (vals2 ! i), p_is_buffer = True,
                                    p_name = buffer_name (name f) (length vals2) i\<rparr>)
                            [0..<length vals2],
                        schedule := \<lparr>dims = dims (schedule f) @
                                       map (\<lambda>a. \<lparr>dim_var = a, for_type = Serial\<rparr>) as,
                                     storage_dims = storage_dims (schedule f) @ as\<rparr>\<rparr>\<rparr>)))))"

subsection \<open>\<^verbatim>\<open>Function::define_reduction\<close>\<close>

text \<open>
  One round of the loop that derives the pure arguments: the value of \<^verbatim>\<open>pure_args[i]\<close>
  for the left-hand-side expression \<^verbatim>\<open>args[i]\<close> and the \<open>i\<close>-th argument name \<open>pa\<close> of the
  pure definition, and whether \<^verbatim>\<open>pure\<close> is left as it is (\<open>True\<close>) or set to false.
\<close>

fun derive_pure_arg :: "string \<Rightarrow> expr \<Rightarrow> string \<times> bool" where
  "derive_pure_arg pa (Variable a t n param rd) =
     (if \<not> defined param \<and> \<not> defined rd \<and> n = pa then (n, True) else ([], False))"
| "derive_pure_arg pa _ = ([], False)"

definition derive_pure_args :: "string list \<Rightarrow> expr list \<Rightarrow> string list" where
  "derive_pure_args pas as =
     map (\<lambda>i. fst (derive_pure_arg (pas ! i) (as ! i))) [0..<length as]"

definition all_pure :: "string list \<Rightarrow> expr list \<Rightarrow> bool" where
  "all_pure pas as =
     list_all (\<lambda>i. snd (derive_pure_arg (pas ! i) (as ! i))) [0..<length as]"

text \<open>The names handed to \<^verbatim>\<open>lower_random\<close>.\<close>

definition free_vars_of :: "string list \<Rightarrow> ReductionDomain \<Rightarrow> string list" where
  "free_vars_of pargs rd =
     filter (\<lambda>p. p \<noteq> []) pargs @
     (case rd of None \<Rightarrow> [] | Some d \<Rightarrow> map var (domain d))"

text \<open>The schedule of the update: first the reduction domain, then the pure arguments.\<close>

definition reduction_dims :: "ReductionDomain \<Rightarrow> string list \<Rightarrow> Dim list" where
  "reduction_dims rd pargs =
     (case rd of
        None \<Rightarrow> []
      | Some d \<Rightarrow> map (\<lambda>rv. \<lparr>dim_var = var rv, for_type = Serial\<rparr>) (domain d)) @
     map (\<lambda>p. \<lparr>dim_var = p, for_type = Serial\<rparr>) (filter (\<lambda>p. p \<noteq> []) pargs)"

text \<open>
  \<^verbatim>\<open>define_reduction\<close> builds its validator with \<^verbatim>\<open>CheckVars check(name())\<close>, that is from
  a temporary \<^verbatim>\<open>Function\<close> made from the name, which is gone when the validator reads
  \<^verbatim>\<open>func\<close> (at a call node, or for the text of a message). The embedding is of the intended
  behaviour: its validator is given the name of the function. The loops over \<^verbatim>\<open>values\<close> and \<^verbatim>\<open>args\<close> that only check or rewrite element \<open>i\<close>
  are written with \<open>list_all\<close> and \<open>map\<close>; the order of the checks is the order of the code.
\<close>

definition Function_define_reduction ::
  "passes \<Rightarrow> Expr list \<Rightarrow> Expr list \<Rightarrow> state \<Rightarrow> (error \<times> state) + state" where
  "Function_define_reduction P as0 vals s =
     (let f = contents s in
      if name f = [] then Inl (NeedsName, s)
      else if \<not> has_pure_definition f then Inl (MissingPureDefinition, s)
      else if \<not> list_all defined vals then Inl (UndefinedExpression, s)
      else if int (length as0) \<noteq> dimensions f then Inl (ArityMismatch, s)
      else if length vals \<noteq> length (fun_values f) then Inl (ArityMismatch, s)
      else if map type_of (fun_values f) \<noteq> map type_of (map the vals)
        then Inl (TypeMismatch, s)
      else
        (let vals1 = map (common_subexpression_elimination P) (map the vals);
             as1 = map (map_option (common_subexpression_elimination P)) as0
         in
         if \<not> list_all defined as1 then Inl (UndefinedExpression, s)
         else
           (let as2 = map the as1;
                pargs = derive_pure_args (args f) as2;
                pure = all_pure (args f) as2
            in
            case accept_all_cv (CheckVars_init (name f) pargs) (as2 @ vals1) of
              Inl e \<Rightarrow> Inl (e, s)
            | Inr check \<Rightarrow>
                (let free_vars = free_vars_of pargs (reduction_domain check);
                     tag = rand_counter s;
                     s1 = s\<lparr>rand_counter := tag + 1\<rparr>;
                     as3 = map (\<lambda>a. lower_random P a free_vars tag) as2;
                     vals3 = map (\<lambda>v. lower_random P v free_vars tag) vals1;
                     counter = accept_all_csr (CountSelfReferences_init (contents_ptr f))
                                 (as3 @ vals3)
                 in
                 case decrement_loop (card (calls counter)) (ref_count f) of
                   Inl rc \<Rightarrow>
                     Inl (CycleAccountingViolation, s1\<lparr>contents := f\<lparr>ref_count := rc\<rparr>\<rparr>)
                 | Inr rc \<Rightarrow>
                     (let r = \<lparr>r_args = as3, r_values = vals3,
                               r_domain = reduction_domain check,
                               r_schedule =
                                 \<lparr>dims = reduction_dims (reduction_domain check) pargs,
                                  storage_dims = []\<rparr>\<rparr>;
                          warn = (\<not> defined (reduction_domain check) \<and>
                                  calls counter = {} \<and> pure)
                      in
                      Inr (s1\<lparr>contents := f\<lparr>ref_count := rc,
                                             reductions := reductions f @ [r]\<rparr>,
                              cerr := cerr s @
                                (if warn
                                 then [HidesEarlierDefinitions (length (reductions f)) (name f)]
                                 else [])\<rparr>))))))"

subsection \<open>\<^verbatim>\<open>Function::define_extern\<close>\<close>

text \<open>\<^verbatim>\<open>std::vector::resize\<close> on a vector of strings.\<close>

definition resize :: "nat \<Rightarrow> string list \<Rightarrow> string list" where
  "resize n xs = take n xs @ replicate (n - length xs) []"

text \<open>
  The loop that makes the synthetic argument names, from index \<open>i\<close> on: each round takes
  a name from \<^verbatim>\<open>unique_name('e')\<close>, stores it in \<^verbatim>\<open>args[i]\<close> and appends it to
  \<^verbatim>\<open>schedule.storage_dims\<close>.
\<close>

function extern_args_loop :: "nat \<Rightarrow> nat \<Rightarrow> state \<Rightarrow> state" where
  "extern_args_loop dimensionality i s =
     (if i < dimensionality then
        (let (arg, s1) = unique_name CHR ''e'' s;
             f = contents s1;
             sch = schedule f
         in extern_args_loop dimensionality (Suc i)
              (s1\<lparr>contents := f\<lparr>args := (args f)[i := arg],
                                  schedule := sch\<lparr>storage_dims := storage_dims sch @ [arg]\<rparr>\<rparr>\<rparr>))
      else s)"
  by pat_completeness auto
termination
  by (relation "measure (\<lambda>(d, i, s). d - i)") auto

declare extern_args_loop.simps [simp del]

text \<open>
  The dimensionality is an \<^verbatim>\<open>int\<close>. A negative one is converted by \<^verbatim>\<open>resize\<close> to a size
  that no vector can have, and the call ends with an exception nobody catches.
\<close>

definition Function_define_extern ::
  "string \<Rightarrow> nat list \<Rightarrow> Type list \<Rightarrow> int \<Rightarrow> state \<Rightarrow> (error \<times> state) + state" where
  "Function_define_extern function_name eargs types dimensionality s =
     (let f = contents s in
      if \<not> (\<not> has_pure_definition f \<and> \<not> has_reduction_definition f)
        then Inl (PureHasNoExternDefinition, s)
      else if has_extern_definition f then Inl (ExternAlreadyDefined, s)
      else
        (let f1 = f\<lparr>extern_function_name := function_name,
                    extern_arguments := eargs,
                    output_types := types,
                    output_buffers := output_buffers f @
                      map (\<lambda>i. \<lparr>p_type = types ! i, p_is_buffer = True,
                                p_name = buffer_name (name f) (length types) i\<rparr>)
                        [0..<length types]\<rparr>
         in
         if dimensionality < 0 then Inl (NegativeDimensionality, s\<lparr>contents := f1\<rparr>)
         else
           Inr (extern_args_loop (nat dimensionality) 0
                  (s\<lparr>contents := f1\<lparr>args := resize (nat dimensionality) (args f1)\<rparr>\<rparr>))))"

subsection \<open>Predicates used to state the properties\<close>

text \<open>
  Position \<open>j\<close> of a call to the function itself breaks the rule of
  \<^verbatim>\<open>CheckVars::visit(const Call *)\<close>: the pure argument at \<open>j\<close> is not empty and the \<open>j\<close>-th
  argument of the call is not a variable of that name.
\<close>

definition self_call_mismatch :: "string list \<Rightarrow> expr list \<Rightarrow> nat \<Rightarrow> bool" where
  "self_call_mismatch pargs as j =
     (j < length as \<and> j < length pargs \<and> pargs ! j \<noteq> [] \<and>
      \<not> is_var_named (pargs ! j) (as ! j))"

text \<open>
  Every call in the expression that goes back to the function \<open>fn\<close> (same name, call type
  \<open>Halide\<close>) has at most \<open>k\<close> arguments.
\<close>

fun self_calls_fit :: "string \<Rightarrow> nat \<Rightarrow> expr \<Rightarrow> bool" where
  "self_calls_fit fn k (Variable a t n pa rd) = True"
| "self_calls_fit fn k (Let_node a t n v b) =
     (self_calls_fit fn k v \<and> self_calls_fit fn k b)"
| "self_calls_fit fn k (Call a t n ct f as) =
     ((n = fn \<and> ct = Halide \<longrightarrow> length as \<le> k) \<and> list_all (self_calls_fit fn k) as)"
| "self_calls_fit fn k (Other a t cs) = list_all (self_calls_fit fn k) cs"

subsection \<open>Example inputs\<close>

text \<open>
  The function \<open>f(x, y) = x + y\<close> of the spec's examples, once its pure definition is
  committed; its contents live at address 100 and two handles refer to it. The passes of
  the examples leave every expression as it is.
\<close>

definition ex_int :: Type where
  "ex_int = Type TInt 32 1"

definition ex_passes :: passes where
  "ex_passes = \<lparr>common_subexpression_elimination = (\<lambda>e. e),
                 lower_random = (\<lambda>e fv tag. e)\<rparr>"

definition ex_x :: expr where
  "ex_x = Variable 1 ex_int ''x'' None None"

definition ex_y :: expr where
  "ex_y = Variable 2 ex_int ''y'' None None"

definition ex_contents :: FunctionContents where
  "ex_contents =
     \<lparr>contents_ptr = 100, ref_count = 2, name = ''f'', args = [''x'', ''y''],
      fun_values = [Other 3 ex_int [ex_x, ex_y]],
      output_types = [ex_int],
      output_buffers = [\<lparr>p_type = ex_int, p_is_buffer = True, p_name = ''f''\<rparr>],
      schedule = \<lparr>dims = [\<lparr>dim_var = ''x'', for_type = Serial\<rparr>,
                          \<lparr>dim_var = ''y'', for_type = Serial\<rparr>],
                  storage_dims = [''x'', ''y'']\<rparr>,
      reductions = [], extern_function_name = [], extern_arguments = []\<rparr>"

definition ex_state :: state where
  "ex_state = \<lparr>contents = ex_contents, rand_counter = 0, instances = (\<lambda>c. 0), cerr = []\<rparr>"

text \<open>A call \<open>f(...)\<close> back to the function, and the constant \<open>1\<close>.\<close>

definition ex_call :: "nat \<Rightarrow> expr list \<Rightarrow> expr" where
  "ex_call a as = Call a ex_int ''f'' Halide (Some 100) as"

definition ex_one :: expr where
  "ex_one = Other 6 ex_int []"

text \<open>
  The reduction domain \<open>r = {i: [0, 10)}\<close>, a variable of that domain, and the update
  \<open>f(x, i) = f(x, i) * 2\<close> of the spec's example, with the state it leads to.
\<close>

definition ex_rdom :: ReductionDomainContents where
  "ex_rdom = \<lparr>rdom_ptr = 50, domain = [\<lparr>var = ''i''\<rparr>]\<rparr>"

definition ex_i :: expr where
  "ex_i = Variable 7 ex_int ''i'' None (Some ex_rdom)"

definition ex_update_values :: "Expr list" where
  "ex_update_values = [Some (Other 8 ex_int [ex_call 4 [ex_x, ex_i], Other 9 ex_int []])]"

definition ex_update :: ReductionDefinition where
  "ex_update =
     \<lparr>r_args = [ex_x, ex_i],
      r_values = [Other 8 ex_int [ex_call 4 [ex_x, ex_i], Other 9 ex_int []]],
      r_domain = Some ex_rdom,
      r_schedule = \<lparr>dims = [\<lparr>dim_var = ''i'', for_type = Serial\<rparr>,
                            \<lparr>dim_var = ''x'', for_type = Serial\<rparr>],
                    storage_dims = []\<rparr>\<rparr>"

definition ex_updated :: state where
  "ex_updated =
     ex_state\<lparr>rand_counter := 1,
              contents := ex_contents\<lparr>ref_count := 1, reductions := [ex_update]\<rparr>\<rparr>"

text \<open>
  The update \<open>f(x, y) = x + 1\<close>: no reduction domain, no call to \<open>f\<close>, both positions pure.
\<close>

definition ex_hiding :: ReductionDefinition where
  "ex_hiding =
     \<lparr>r_args = [ex_x, ex_y],
      r_values = [Other 8 ex_int [ex_x, ex_one]],
      r_domain = None,
      r_schedule = \<lparr>dims = [\<lparr>dim_var = ''x'', for_type = Serial\<rparr>,
                            \<lparr>dim_var = ''y'', for_type = Serial\<rparr>],
                    storage_dims = []\<rparr>\<rparr>"

definition ex_hidden :: state where
  "ex_hidden =
     ex_state\<lparr>rand_counter := 1,
              contents := ex_contents\<lparr>reductions := [ex_hiding]\<rparr>,
              cerr := [HidesEarlierDefinitions 0 ''f'']\<rparr>"

text \<open>
  The same function before any definition, a second reduction domain with a variable of
  its own, and the function after \<^verbatim>\<open>define_extern("ext", {}, {Int(32)}, 2)\<close>.
\<close>

definition ex_fresh :: state where
  "ex_fresh =
     \<lparr>contents =
        \<lparr>contents_ptr = 100, ref_count = 1, name = ''f'', args = [], fun_values = [],
         output_types = [], output_buffers = [], schedule = empty_schedule,
         reductions = [], extern_function_name = [], extern_arguments = []\<rparr>,
      rand_counter = 0, instances = (\<lambda>c. 0), cerr = []\<rparr>"

definition ex_rdom2 :: ReductionDomainContents where
  "ex_rdom2 = \<lparr>rdom_ptr = 51, domain = [\<lparr>var = ''j''\<rparr>]\<rparr>"

definition ex_j :: expr where
  "ex_j = Variable 10 ex_int ''j'' None (Some ex_rdom2)"

definition ex_extern :: state where
  "ex_extern =
     \<lparr>contents =
        \<lparr>contents_ptr = 100, ref_count = 1, name = ''f'', args = [''e0'', ''e1''],
         fun_values = [],
         output_types = [ex_int],
         output_buffers = [\<lparr>p_type = ex_int, p_is_buffer = True, p_name = ''f''\<rparr>],
         schedule = \<lparr>dims = [], storage_dims = [''e0'', ''e1'']\<rparr>,
         reductions = [], extern_function_name = ''ext'', extern_arguments = []\<rparr>,
      rand_counter = 0, instances = (\<lambda>c. 0)(CHR ''e'' := 2), cerr = []\<rparr>"

text \<open>
  The names that \<open>n\<close> calls of \<^verbatim>\<open>unique_name('e')\<close> give when \<open>start\<close> names with that
  prefix have been handed out before.
\<close>

definition synthetic_names :: "nat \<Rightarrow> nat \<Rightarrow> string list" where
  "synthetic_names start n = map (\<lambda>k. CHR ''e'' # int_to_string (start + k)) [0..<n]"

text \<open>
  The set of call nodes that C1 speaks of, written from the words of the spec: the
  addresses of all call nodes anywhere in the expression graph whose target is the
  function at address \<open>this\<close>. It is compared with what \<open>accept_csr\<close> collects.
\<close>

fun spec_self_call_nodes :: "nat \<Rightarrow> expr \<Rightarrow> nat set" where
  "spec_self_call_nodes this (Variable a t n pa rd) = {}"
| "spec_self_call_nodes this (Let_node a t n v b) =
     spec_self_call_nodes this v \<union> spec_self_call_nodes this b"
| "spec_self_call_nodes this (Call a t n ct f as) =
     (if f = Some this then {a} else {}) \<union> (\<Union>e\<in>set as. spec_self_call_nodes this e)"
| "spec_self_call_nodes this (Other a t cs) = (\<Union>e\<in>set cs. spec_self_call_nodes this e)"

text \<open>
  The update \<open>f(x, y) = sin(f(x, y))\<close>: the call to \<open>f\<close> is an argument of the extern call
  \<open>sin\<close>. \<open>ex_nested_done\<close> is the state that \<^verbatim>\<open>define_reduction\<close> leaves.
\<close>

definition ex_nested :: expr where
  "ex_nested = Call 7 ex_int ''sin'' Extern None [ex_call 4 [ex_x, ex_y]]"

definition ex_nested_done :: state where
  "ex_nested_done =
     ex_state\<lparr>rand_counter := 1,
              contents := ex_contents
                \<lparr>reductions :=
                   [\<lparr>r_args = [ex_x, ex_y], r_values = [ex_nested], r_domain = None,
                     r_schedule = \<lparr>dims = [\<lparr>dim_var = ''x'', for_type = Serial\<rparr>,
                                           \<lparr>dim_var = ''y'', for_type = Serial\<rparr>],
                                   storage_dims = []\<rparr>\<rparr>]\<rparr>,
              cerr := [HidesEarlierDefinitions 0 ''f'']\<rparr>"

text \<open>
  The update \<open>f(x, 1) = x + 1\<close>: no reduction domain and no call to \<open>f\<close>, but the second
  position is not pure.
\<close>

definition ex_nonpure :: ReductionDefinition where
  "ex_nonpure =
     \<lparr>r_args = [ex_x, ex_one],
      r_values = [Other 8 ex_int [ex_x, ex_one]],
      r_domain = None,
      r_schedule = \<lparr>dims = [\<lparr>dim_var = ''x'', for_type = Serial\<rparr>], storage_dims = []\<rparr>\<rparr>"

definition ex_nonpure_done :: state where
  "ex_nonpure_done =
     ex_state\<lparr>rand_counter := 1, contents := ex_contents\<lparr>reductions := [ex_nonpure]\<rparr>\<rparr>"

text \<open>
  A variable named \<open>x\<close>, like the first pure argument, that carries the second reduction
  domain, and the update \<open>f(x, i) = i + x\<close> written with it.
\<close>

definition ex_xj :: expr where
  "ex_xj = Variable 11 ex_int ''x'' None (Some ex_rdom2)"

definition ex_two_done :: state where
  "ex_two_done =
     ex_state\<lparr>rand_counter := 1,
              contents := ex_contents
                \<lparr>reductions :=
                   [\<lparr>r_args = [ex_x, ex_i], r_values = [Other 8 ex_int [ex_i, ex_xj]],
                     r_domain = Some ex_rdom,
                     r_schedule = \<lparr>dims = [\<lparr>dim_var = ''i'', for_type = Serial\<rparr>,
                                           \<lparr>dim_var = ''x'', for_type = Serial\<rparr>],
                                   storage_dims = []\<rparr>\<rparr>]\<rparr>\<rparr>"

section \<open>Properties\<close>

subsection \<open>The scope validator\<close>

lemma self_call_loop_eq:
  "self_call_loop pargs as i =
     (if \<exists>j\<ge>i. self_call_mismatch pargs as j then Some InvalidRecursiveReference
      else if length as \<le> length pargs \<or> length as \<le> i then None
      else Some PureArgsOutOfRange)"
proof (induction pargs as i rule: self_call_loop.induct)
  case (1 pargs as i)
  show ?case
  proof (cases "i < length as")
    case False
    then have "\<not> (\<exists>j\<ge>i. self_call_mismatch pargs as j)"
      by (auto simp: self_call_mismatch_def)
    with False show ?thesis by (subst self_call_loop.simps) simp
  next
    case True
    note lt = this
    show ?thesis
    proof (cases "i < length pargs")
      case False
      then have "\<not> (\<exists>j\<ge>i. self_call_mismatch pargs as j)"
        by (auto simp: self_call_mismatch_def)
      with False lt show ?thesis by (subst self_call_loop.simps) simp
    next
      case True
      show ?thesis
      proof (cases "self_call_mismatch pargs as i")
        case v: True
        then have "\<exists>j\<ge>i. self_call_mismatch pargs as j" by blast
        with v lt True show ?thesis
          by (subst self_call_loop.simps) (simp add: self_call_mismatch_def)
      next
        case nv: False
        have ex: "(\<exists>j\<ge>i. self_call_mismatch pargs as j) =
                  (\<exists>j\<ge>Suc i. self_call_mismatch pargs as j)"
          using nv by (metis Suc_leD Suc_leI le_neq_implies_less)
        have step: "self_call_loop pargs as i = self_call_loop pargs as (Suc i)"
          using nv lt True
          by (subst self_call_loop.simps) (auto simp: self_call_mismatch_def)
        have ih: "self_call_loop pargs as (Suc i) =
            (if \<exists>j\<ge>Suc i. self_call_mismatch pargs as j then Some InvalidRecursiveReference
             else if length as \<le> length pargs \<or> length as \<le> Suc i then None
             else Some PureArgsOutOfRange)"
          using "1.IH"[OF lt] True nv lt by (simp add: self_call_mismatch_def)
        show ?thesis unfolding step ih ex using lt True by auto
      qed
    qed
  qed
qed

lemma visit_Variable_const:
  "visit_Variable c n pa rd = Inr c' \<Longrightarrow>
     pure_args c' = pure_args c \<and> func_name c' = func_name c"
  by (auto simp: visit_Variable_def split: if_splits)

lemma visit_Variable_not_range: "visit_Variable c n pa rd \<noteq> Inl PureArgsOutOfRange"
  by (simp add: visit_Variable_def)

text \<open>The visitor never writes its pure arguments nor the name of its function.\<close>

lemma cv_const:
  "accept_cv c e = Inr c' \<Longrightarrow> pure_args c' = pure_args c \<and> func_name c' = func_name c"
  "include_cv c e = Inr c' \<Longrightarrow> pure_args c' = pure_args c \<and> func_name c' = func_name c"
  "include_list_cv c es = Inr c' \<Longrightarrow>
     pure_args c' = pure_args c \<and> func_name c' = func_name c"
proof (induction c e and c e and c es arbitrary: c' and c' and c'
    rule: accept_cv_include_cv_include_list_cv.induct)
  case (1 c a t n pa rd)
  then show ?case using visit_Variable_const[of c n pa rd c'] by simp
next
  case (2 c a t n v b)
  from "2.prems" obtain c1 c2 where
    a: "accept_cv c v = Inr c1" and
    b: "accept_cv (c1\<lparr>defined_internally := n # defined_internally c1\<rparr>) b = Inr c2" and
    c: "c' = c2\<lparr>defined_internally := remove1 n (defined_internally c2)\<rparr>"
    by (auto split: sum.splits)
  from "2.IH"(1)[OF a] "2.IH"(2)[OF a b] c show ?case by simp
next
  case (3 c a t n ct f as)
  from "3.prems" obtain c1 where a: "include_list_cv c as = Inr c1" and c: "c' = c1"
    by (auto split: sum.splits if_splits option.splits)
  from "3.IH"[OF a] c show ?case by simp
next
  case (4 c a t cs)
  then show ?case by simp
next
  case (5 c e)
  then show ?case by (cases "node_ptr e \<in> visited c") simp_all
next
  case (6 c)
  then show ?case by simp
next
  case (7 c e es)
  from "7.prems" obtain c1 where
    a: "include_cv c e = Inr c1" and b: "include_list_cv c1 es = Inr c'"
    by (auto split: sum.splits)
  from "7.IH"(1)[OF a] "7.IH"(2)[OF a b] show ?case by simp
qed

lemma accept_all_cv_const:
  "accept_all_cv c es = Inr c' \<Longrightarrow>
     pure_args c' = pure_args c \<and> func_name c' = func_name c"
proof (induction es arbitrary: c)
  case Nil
  then show ?case by simp
next
  case (Cons e es)
  from Cons.prems obtain c1 where
    a: "accept_cv c e = Inr c1" and b: "accept_all_cv c1 es = Inr c'"
    by (auto split: sum.splits)
  from cv_const(1)[OF a] Cons.IH[OF b] show ?case by simp
qed

lemma cv_in_range:
  "self_calls_fit (func_name c) (length (pure_args c)) e \<Longrightarrow>
     accept_cv c e \<noteq> Inl PureArgsOutOfRange"
  "self_calls_fit (func_name c) (length (pure_args c)) e \<Longrightarrow>
     include_cv c e \<noteq> Inl PureArgsOutOfRange"
  "list_all (self_calls_fit (func_name c) (length (pure_args c))) es \<Longrightarrow>
     include_list_cv c es \<noteq> Inl PureArgsOutOfRange"
proof (induction c e and c e and c es rule: accept_cv_include_cv_include_list_cv.induct)
  case (1 c a t n pa rd)
  show ?case by (simp add: visit_Variable_not_range)
next
  case (2 c a t n v b)
  from "2.prems" have fv: "self_calls_fit (func_name c) (length (pure_args c)) v"
    and fb: "self_calls_fit (func_name c) (length (pure_args c)) b" by simp_all
  show ?case
  proof (cases "accept_cv c v")
    case (Inl e)
    with "2.IH"(1)[OF fv] show ?thesis by simp
  next
    case (Inr c1)
    let ?c1 = "c1\<lparr>defined_internally := n # defined_internally c1\<rparr>"
    from cv_const(1)[OF Inr] fb
    have "self_calls_fit (func_name ?c1) (length (pure_args ?c1)) b" by simp
    from "2.IH"(2)[OF Inr this] Inr show ?thesis by (auto split: sum.splits)
  qed
next
  case (3 c a t n ct f as)
  from "3.prems" have fa: "list_all (self_calls_fit (func_name c) (length (pure_args c))) as"
    and len: "n = func_name c \<and> ct = Halide \<longrightarrow> length as \<le> length (pure_args c)"
    by simp_all
  show ?case
  proof (cases "include_list_cv c as")
    case (Inl e)
    with "3.IH"[OF fa] show ?thesis by simp
  next
    case (Inr c1)
    from cv_const(3)[OF Inr]
    have eq: "pure_args c1 = pure_args c" "func_name c1 = func_name c" by simp_all
    show ?thesis using Inr eq len by (simp add: self_call_loop_eq)
  qed
next
  case (4 c a t cs)
  then show ?case by simp
next
  case (5 c e)
  then show ?case by (cases "node_ptr e \<in> visited c") simp_all
next
  case (6 c)
  then show ?case by simp
next
  case (7 c e es)
  from "7.prems" have fe: "self_calls_fit (func_name c) (length (pure_args c)) e"
    and fes: "list_all (self_calls_fit (func_name c) (length (pure_args c))) es"
    by simp_all
  show ?case
  proof (cases "include_cv c e")
    case (Inl err)
    with "7.IH"(1)[OF fe] show ?thesis by simp
  next
    case (Inr c1)
    from cv_const(2)[OF Inr] fes
    have "list_all (self_calls_fit (func_name c1) (length (pure_args c1))) es" by simp
    from "7.IH"(2)[OF Inr this] Inr show ?thesis by simp
  qed
qed

lemmas ex_defs =
  ex_int_def ex_passes_def ex_x_def ex_y_def ex_contents_def ex_state_def ex_call_def
  ex_one_def ex_rdom_def ex_i_def ex_update_values_def ex_update_def ex_updated_def
  ex_hiding_def ex_hidden_def ex_fresh_def ex_rdom2_def ex_j_def ex_extern_def
  ex_nested_def ex_nested_done_def ex_nonpure_def ex_nonpure_done_def ex_xj_def
  ex_two_done_def

text \<open>
  C3. When the visitor reaches a call to the function being defined (same name, call type
  \<open>Halide\<close>) and the traversal of its arguments has passed, the call is rejected with
  \<open>InvalidRecursiveReference\<close> exactly when some argument position whose pure argument is
  not empty holds anything but a variable of that name; otherwise the call is accepted,
  provided the call has no more arguments than there are pure arguments.
\<close>

theorem self_call_positions:
  assumes "include_list_cv c as = Inr c1"
  shows "accept_cv c (Call a t (func_name c) Halide f as) =
     (if \<exists>i<length as. i < length (pure_args c) \<and> pure_args c ! i \<noteq> [] \<and>
           \<not> (\<exists>p ty pa rd. as ! i = Variable p ty (pure_args c ! i) pa rd)
      then Inl InvalidRecursiveReference
      else if length as \<le> length (pure_args c) then Inr c1
      else Inl PureArgsOutOfRange)"
proof -
  let ?V = "\<exists>i<length as. i < length (pure_args c) \<and> pure_args c ! i \<noteq> [] \<and>
           \<not> (\<exists>p ty pa rd. as ! i = Variable p ty (pure_args c ! i) pa rd)"
  from cv_const(3)[OF assms]
  have eq: "pure_args c1 = pure_args c" "func_name c1 = func_name c" by simp_all
  have v: "is_var_named p e = (\<exists>q ty pa rd. e = Variable q ty p pa rd)" for p e
    by (cases e) auto
  have ex: "(\<exists>j\<ge>0. self_call_mismatch (pure_args c) as j) = ?V"
    by (auto simp: self_call_mismatch_def v)
  have acc: "accept_cv c (Call a t (func_name c) Halide f as) =
      (case self_call_loop (pure_args c) as 0 of Some e \<Rightarrow> Inl e | None \<Rightarrow> Inr c1)"
    using assms eq by simp
  have loop: "self_call_loop (pure_args c) as 0 =
     (if ?V then Some InvalidRecursiveReference
      else if length as \<le> length (pure_args c) then None
      else Some PureArgsOutOfRange)"
    unfolding ex[symmetric] by (subst self_call_loop_eq) auto
  show ?thesis unfolding acc loop by (cases ?V) simp_all
qed

text \<open>
  The call \<open>f(y, x)\<close> in a definition whose pure arguments are \<open>x, y\<close>: the arguments pass,
  the call does not.
\<close>

theorem self_call_positions_witness:
  "include_list_cv (CheckVars_init ''f'' [''x'', ''y'']) [ex_y, ex_x] =
     Inr ((CheckVars_init ''f'' [''x'', ''y''])\<lparr>visited := {1, 2}\<rparr>) \<and>
   accept_cv (CheckVars_init ''f'' [''x'', ''y'']) (ex_call 4 [ex_y, ex_x]) =
     Inl InvalidRecursiveReference"
proof -
  let ?c = "CheckVars_init ''f'' [''x'', ''y'']"
  have h1: "include_list_cv ?c [ex_y, ex_x] = Inr (?c\<lparr>visited := {1, 2}\<rparr>)"
    by (simp add: CheckVars_init_def ex_defs visit_Variable_def defined_def insert_commute)
  have n: "func_name ?c = ''f''" by (simp add: CheckVars_init_def)
  have cond: "\<exists>i<length [ex_y, ex_x]. i < length (pure_args ?c) \<and> pure_args ?c ! i \<noteq> [] \<and>
           \<not> (\<exists>p ty pa rd. [ex_y, ex_x] ! i = Variable p ty (pure_args ?c ! i) pa rd)"
    by (rule exI[of _ 0]) (simp add: CheckVars_init_def ex_y_def)
  from self_call_positions[OF h1, of 4 ex_int "Some 100"] cond
  have "accept_cv ?c (ex_call 4 [ex_y, ex_x]) = Inl InvalidRecursiveReference"
    unfolding n ex_call_def by (simp only: if_True)
  with h1 show ?thesis by (rule_tac conjI)
qed

text \<open>
  C10. The loop over the arguments of a call to the function itself reads
  \<^verbatim>\<open>pure_args[i]\<close> for every argument index. If every such call in the expressions has at
  most as many arguments as there are pure arguments, no read is out of range: the
  validation never ends in \<open>PureArgsOutOfRange\<close>.
\<close>

theorem self_call_reads_in_range:
  assumes "list_all (self_calls_fit (func_name c) (length (pure_args c))) es"
  shows "accept_all_cv c es \<noteq> Inl PureArgsOutOfRange"
  using assms
proof (induction es arbitrary: c)
  case Nil
  then show ?case by simp
next
  case (Cons e es)
  from Cons.prems have fe: "self_calls_fit (func_name c) (length (pure_args c)) e"
    and fes: "list_all (self_calls_fit (func_name c) (length (pure_args c))) es"
    by simp_all
  show ?case
  proof (cases "accept_cv c e")
    case (Inl err)
    with cv_in_range(1)[OF fe] show ?thesis by simp
  next
    case (Inr c1)
    from cv_const(1)[OF Inr] fes
    have "list_all (self_calls_fit (func_name c1) (length (pure_args c1))) es" by simp
    from Cons.IH[OF this] Inr show ?thesis by simp
  qed
qed

theorem self_call_reads_in_range_witness:
  "list_all (self_calls_fit (func_name (CheckVars_init ''f'' [''x'', ''y'']))
      (length (pure_args (CheckVars_init ''f'' [''x'', ''y'']))))
      [Other 5 ex_int [ex_call 4 [ex_x, ex_y], ex_one]] \<and>
   accept_all_cv (CheckVars_init ''f'' [''x'', ''y''])
     [Other 5 ex_int [ex_call 4 [ex_x, ex_y], ex_one]] \<noteq> Inl PureArgsOutOfRange"
proof -
  have h: "list_all (self_calls_fit (func_name (CheckVars_init ''f'' [''x'', ''y'']))
             (length (pure_args (CheckVars_init ''f'' [''x'', ''y'']))))
             [Other 5 ex_int [ex_call 4 [ex_x, ex_y], ex_one]]"
    by (simp add: CheckVars_init_def ex_defs)
  from self_call_reads_in_range[OF h] h show ?thesis by (rule_tac conjI)
qed

text \<open>
  Without the precondition the read does go out of range: \<open>f(x, 1)\<close> in a definition with
  the single pure argument \<open>x\<close>.
\<close>

lemma self_call_read_out_of_range:
  "accept_all_cv (CheckVars_init ''f'' [''x'']) [ex_call 4 [ex_x, ex_one]] =
     Inl PureArgsOutOfRange"
  by (simp add: CheckVars_init_def ex_defs visit_Variable_def defined_def
      self_call_loop.simps)

subsection \<open>Update definitions\<close>

lemma list_all_defined_map:
  "list_all defined (map (map_option g) xs) = list_all defined xs"
  by (induction xs) (simp_all add: defined_def)

text \<open>What a successful \<^verbatim>\<open>define_reduction\<close> has checked, computed and written.\<close>

lemma define_reduction_pre:
  assumes run: "Function_define_reduction P as0 vals s = Inr s'"
  shows "name (contents s) \<noteq> [] \<and> has_pure_definition (contents s) \<and> list_all defined vals \<and>
     list_all defined as0 \<and> length as0 = length (args (contents s)) \<and>
     length vals = length (fun_values (contents s)) \<and>
     map type_of (fun_values (contents s)) = map type_of (map the vals)"
  using run unfolding Function_define_reduction_def Let_def
  by (simp add: dimensions_def list_all_defined_map split: if_splits)

lemma define_reduction_InrD:
  fixes P as0 vals s
  defines "f \<equiv> contents s"
  defines "as2 \<equiv> map the (map (map_option (common_subexpression_elimination P)) as0)"
  defines "vals1 \<equiv> map (common_subexpression_elimination P) (map the vals)"
  defines "pargs \<equiv> derive_pure_args (args f) as2"
  defines "counter_of \<equiv> \<lambda>check. accept_all_csr (CountSelfReferences_init (contents_ptr f))
     (map (\<lambda>a. lower_random P a (free_vars_of pargs (reduction_domain check)) (rand_counter s)) as2 @
      map (\<lambda>v. lower_random P v (free_vars_of pargs (reduction_domain check)) (rand_counter s)) vals1)"
  assumes run: "Function_define_reduction P as0 vals s = Inr s'"
  shows "\<exists>check rc.
     accept_all_cv (CheckVars_init (name f) pargs) (as2 @ vals1) = Inr check \<and>
     decrement_loop (card (calls (counter_of check))) (ref_count f) = Inr rc \<and>
     s' = s\<lparr>rand_counter := rand_counter s + 1,
            contents := f\<lparr>ref_count := rc,
              reductions := reductions f @
                [\<lparr>r_args = map (\<lambda>a. lower_random P a (free_vars_of pargs (reduction_domain check)) (rand_counter s)) as2,
                  r_values = map (\<lambda>v. lower_random P v (free_vars_of pargs (reduction_domain check)) (rand_counter s)) vals1,
                  r_domain = reduction_domain check,
                  r_schedule = \<lparr>dims = reduction_dims (reduction_domain check) pargs,
                                storage_dims = []\<rparr>\<rparr>]\<rparr>,
            cerr := cerr s @
              (if \<not> defined (reduction_domain check) \<and> calls (counter_of check) = {} \<and>
                  all_pure (args f) as2
               then [HidesEarlierDefinitions (length (reductions f)) (name f)]
               else [])\<rparr>"
proof -
  from run have run': "(case accept_all_cv (CheckVars_init (name f) pargs) (as2 @ vals1) of
      Inl e \<Rightarrow> Inl (e, s)
    | Inr check \<Rightarrow>
       (case decrement_loop (card (calls (counter_of check))) (ref_count f) of
          Inl rc \<Rightarrow> Inl (CycleAccountingViolation, s\<lparr>rand_counter := rand_counter s + 1, contents := f\<lparr>ref_count := rc\<rparr>\<rparr>)
        | Inr rc \<Rightarrow> Inr (s\<lparr>rand_counter := rand_counter s + 1,
            contents := f\<lparr>ref_count := rc,
              reductions := reductions f @
                [\<lparr>r_args = map (\<lambda>a. lower_random P a (free_vars_of pargs (reduction_domain check)) (rand_counter s)) as2,
                  r_values = map (\<lambda>v. lower_random P v (free_vars_of pargs (reduction_domain check)) (rand_counter s)) vals1,
                  r_domain = reduction_domain check,
                  r_schedule = \<lparr>dims = reduction_dims (reduction_domain check) pargs,
                                storage_dims = []\<rparr>\<rparr>]\<rparr>,
            cerr := cerr s @
              (if \<not> defined (reduction_domain check) \<and> calls (counter_of check) = {} \<and>
                  all_pure (args f) as2
               then [HidesEarlierDefinitions (length (reductions f)) (name f)]
               else [])\<rparr>))) = Inr s'"
    unfolding Function_define_reduction_def Let_def f_def as2_def vals1_def pargs_def counter_of_def
    by (simp del: map_map map_append split: if_splits cong: sum.case_cong)
  show ?thesis
  proof (cases "accept_all_cv (CheckVars_init (name f) pargs) (as2 @ vals1)")
    case (Inl e)
    with run' show ?thesis by simp
  next
    case (Inr check)
    note chk = this
    show ?thesis
    proof (cases "decrement_loop (card (calls (counter_of check))) (ref_count f)")
      case (Inl rc)
      with run' chk show ?thesis by simp
    next
      case (Inr rc)
      with run' chk show ?thesis by (intro exI[of _ check] exI[of _ rc]) simp
    qed
  qed
qed

lemmas run_defs = Function_define_reduction_def Let_def has_pure_definition_def dimensions_def
  defined_def CheckVars_init_def visit_Variable_def same_as_def derive_pure_args_def all_pure_def
  free_vars_of_def reduction_dims_def CountSelfReferences_init_def self_call_loop.simps

lemma ex_update_run:
  "Function_define_reduction ex_passes [Some ex_x, Some ex_i] ex_update_values ex_state = Inr ex_updated"
  by (simp add: run_defs ex_defs upt_rec)

lemma ex_hiding_run:
  "Function_define_reduction ex_passes [Some ex_x, Some ex_y] [Some (Other 8 ex_int [ex_x, ex_one])] ex_state = Inr ex_hidden"
  by (simp add: run_defs ex_defs upt_rec)

lemma lhs_after_cse:
  "list_all defined xs \<Longrightarrow> map the (map (map_option g) xs) = map (\<lambda>a. g (the a)) xs"
  by (induction xs) (auto simp: defined_def)

lemma define_reduction_InrE:
  assumes run: "Function_define_reduction P as0 vals s = Inr s'"
  obtains (Update) f as2 vals1 pargs check as3 vals3 counter rc r where
    "f = contents s"
    "as2 = map (\<lambda>a. common_subexpression_elimination P (the a)) as0"
    "vals1 = map (\<lambda>v. common_subexpression_elimination P (the v)) vals"
    "pargs = derive_pure_args (args f) as2"
    "accept_all_cv (CheckVars_init (name f) pargs) (as2 @ vals1) = Inr check"
    "as3 = map (\<lambda>a. lower_random P a (free_vars_of pargs (reduction_domain check))
                   (rand_counter s)) as2"
    "vals3 = map (\<lambda>v. lower_random P v (free_vars_of pargs (reduction_domain check))
                   (rand_counter s)) vals1"
    "counter = accept_all_csr (CountSelfReferences_init (contents_ptr f)) (as3 @ vals3)"
    "decrement_loop (card (calls counter)) (ref_count f) = Inr rc"
    "r = \<lparr>r_args = as3, r_values = vals3, r_domain = reduction_domain check,
          r_schedule = \<lparr>dims = reduction_dims (reduction_domain check) pargs,
                        storage_dims = []\<rparr>\<rparr>"
    "s' = s\<lparr>rand_counter := rand_counter s + 1,
            contents := f\<lparr>ref_count := rc, reductions := reductions f @ [r]\<rparr>,
            cerr := cerr s @
              (if \<not> defined (reduction_domain check) \<and> calls counter = {} \<and>
                  all_pure (args f) as2
               then [HidesEarlierDefinitions (length (reductions f)) (name f)]
               else [])\<rparr>"
proof -
  from define_reduction_pre[OF run] have d: "list_all defined as0" by simp
  have v: "map (common_subexpression_elimination P) (map the vals) =
           map (\<lambda>v. common_subexpression_elimination P (the v)) vals" by simp
  show thesis
    using define_reduction_InrD[OF run, unfolded lhs_after_cse[OF d] v]
    by (elim exE conjE) (rule that[OF refl refl refl refl _ refl refl refl _ refl]; assumption)
qed

text \<open>The decrement loop in closed form, and what a failing call leaves behind.\<close>

lemma decrement_loop_eq:
  "decrement_loop n rc = (if 0 < rc \<and> rc \<le> int n then Inl 0 else Inr (rc - int n))"
  by (induction n arbitrary: rc) auto

lemma define_reduction_InlD:
  assumes run: "Function_define_reduction P as0 vals s = Inl (e, s1)"
  shows "s1 = s \<or>
     e = CycleAccountingViolation \<and>
     s1 = s\<lparr>rand_counter := rand_counter s + 1, contents := (contents s)\<lparr>ref_count := 0\<rparr>\<rparr>"
  using run unfolding Function_define_reduction_def Let_def
  by (auto simp del: map_map map_append simp add: decrement_loop_eq
      split: if_splits sum.splits)

text \<open>
  C2. When an update definition has been added, its schedule lists one serial dimension
  for each variable of its reduction domain, in the order of the domain, and after them
  one serial dimension for each non-empty pure argument, in the order of the positions.
\<close>

theorem update_schedule_order:
  assumes "Function_define_reduction P as0 vals s = Inr s'"
  shows "\<exists>r. reductions (contents s') = reductions (contents s) @ [r] \<and>
     dims (r_schedule r) =
       map (\<lambda>rv. \<lparr>dim_var = var rv, for_type = Serial\<rparr>)
         (case r_domain r of None \<Rightarrow> [] | Some d \<Rightarrow> domain d) @
       map (\<lambda>p. \<lparr>dim_var = p, for_type = Serial\<rparr>)
         (filter (\<lambda>p. p \<noteq> [])
            (derive_pure_args (args (contents s))
               (map (\<lambda>a. common_subexpression_elimination P (the a)) as0)))"
  using assms
proof (cases rule: define_reduction_InrE)
  case (Update f as2 vals1 pargs check as3 vals3 counter rc r)
  have "reductions (contents s') = reductions (contents s) @ [r]"
    unfolding Update(11) Update(1) by simp
  moreover have "dims (r_schedule r) =
       map (\<lambda>rv. \<lparr>dim_var = var rv, for_type = Serial\<rparr>)
         (case r_domain r of None \<Rightarrow> [] | Some d \<Rightarrow> domain d) @
       map (\<lambda>p. \<lparr>dim_var = p, for_type = Serial\<rparr>) (filter (\<lambda>p. p \<noteq> []) pargs)"
    unfolding Update(10) by (simp add: reduction_dims_def split: option.splits)
  ultimately show ?thesis unfolding Update(4) Update(2) Update(1) by blast
qed

text \<open>The update \<open>f(x, i) = f(x, i) * 2\<close> over \<open>r = {i}\<close>: the schedule is \<open>[i, x]\<close>.\<close>

theorem update_schedule_order_witness:
  "Function_define_reduction ex_passes [Some ex_x, Some ex_i] ex_update_values ex_state =
     Inr ex_updated \<and>
   (\<exists>r. reductions (contents ex_updated) = reductions (contents ex_state) @ [r] \<and>
      dims (r_schedule r) =
        [\<lparr>dim_var = ''i'', for_type = Serial\<rparr>, \<lparr>dim_var = ''x'', for_type = Serial\<rparr>])"
proof -
  from update_schedule_order[OF ex_update_run] obtain r where
    a: "reductions (contents ex_updated) = reductions (contents ex_state) @ [r]" and
    b: "dims (r_schedule r) =
       map (\<lambda>rv. \<lparr>dim_var = var rv, for_type = Serial\<rparr>)
         (case r_domain r of None \<Rightarrow> [] | Some d \<Rightarrow> domain d) @
       map (\<lambda>p. \<lparr>dim_var = p, for_type = Serial\<rparr>)
         (filter (\<lambda>p. p \<noteq> [])
            (derive_pure_args (args (contents ex_state))
               (map (\<lambda>a. common_subexpression_elimination ex_passes (the a))
                  [Some ex_x, Some ex_i])))"
    by blast
  from a have r: "r = ex_update"
    by (simp add: ex_updated_def ex_state_def ex_contents_def)
  have "dims (r_schedule r) =
        [\<lparr>dim_var = ''i'', for_type = Serial\<rparr>, \<lparr>dim_var = ''x'', for_type = Serial\<rparr>]"
    unfolding b r by (simp add: ex_defs derive_pure_args_def defined_def upt_rec)
  with a ex_update_run show ?thesis by blast
qed

text \<open>
  C9. A successful \<^verbatim>\<open>define_reduction\<close> needs a pure definition and leaves it as it was:
  the values, the argument names, the output types, the output buffers and the schedule
  of the function are unchanged. In the function only the reference count and the list
  of updates, which has one more element, are written.
\<close>

theorem update_frame:
  assumes "Function_define_reduction P as0 vals s = Inr s'"
  shows "has_pure_definition (contents s) \<and>
     fun_values (contents s') = fun_values (contents s) \<and>
     args (contents s') = args (contents s) \<and>
     output_types (contents s') = output_types (contents s) \<and>
     output_buffers (contents s') = output_buffers (contents s) \<and>
     schedule (contents s') = schedule (contents s) \<and>
     (\<exists>rc r. contents s' =
        (contents s)\<lparr>ref_count := rc, reductions := reductions (contents s) @ [r]\<rparr>)"
  using assms
proof (cases rule: define_reduction_InrE)
  case (Update f as2 vals1 pargs check as3 vals3 counter rc r)
  have c: "contents s' =
      (contents s)\<lparr>ref_count := rc, reductions := reductions (contents s) @ [r]\<rparr>"
    unfolding Update(11) Update(1) by simp
  from define_reduction_pre[OF assms] have "has_pure_definition (contents s)" by simp
  moreover from c have "\<exists>rc r. contents s' =
        (contents s)\<lparr>ref_count := rc, reductions := reductions (contents s) @ [r]\<rparr>"
    by blast
  ultimately show ?thesis unfolding c by simp
qed

theorem update_frame_witness:
  "Function_define_reduction ex_passes [Some ex_x, Some ex_i] ex_update_values ex_state =
     Inr ex_updated \<and>
   fun_values (contents ex_updated) = [Other 3 ex_int [ex_x, ex_y]] \<and>
   args (contents ex_updated) = [''x'', ''y''] \<and>
   contents ex_updated = ex_contents\<lparr>ref_count := 1, reductions := [ex_update]\<rparr>"
proof -
  from update_frame[OF ex_update_run] ex_update_run
  show ?thesis by (simp add: ex_updated_def ex_state_def ex_contents_def)
qed

text \<open>The derivation of the pure arguments, position by position.\<close>

lemma derive_pure_args_nth:
  "i < length as \<Longrightarrow> derive_pure_args pas as ! i = fst (derive_pure_arg (pas ! i) (as ! i))"
  by (simp add: derive_pure_args_def)

lemma derive_pure_arg_eq:
  "derive_pure_arg pa e =
     (if \<exists>a t. e = Variable a t pa None None then (pa, True) else ([], False))"
  by (cases e) (auto simp: defined_def)

lemma all_pure_iff:
  "all_pure pas as = (\<forall>i<length as. \<exists>a t. as ! i = Variable a t (pas ! i) None None)"
  by (auto simp add: all_pure_def list_all_iff derive_pure_arg_eq)

text \<open>
  C7. A successful \<^verbatim>\<open>define_reduction\<close> appends the update and writes the advisory exactly
  when three things hold: the validator, run on the arguments and values after the CSE
  pass, has resolved no reduction domain; the counter of self references finds no call in
  the update's arguments and values; and at every position the argument is a variable
  without parameter and without reduction domain that has the name of the pure
  definition's argument at that position. A failing call writes nothing.
\<close>

theorem hides_advisory:
  "(\<forall>s'. Function_define_reduction P as0 vals s = Inr s' \<longrightarrow>
      (\<exists>check r.
         accept_all_cv
           (CheckVars_init (name (contents s))
              (derive_pure_args (args (contents s))
                 (map (\<lambda>a. common_subexpression_elimination P (the a)) as0)))
           (map (\<lambda>a. common_subexpression_elimination P (the a)) as0 @
            map (\<lambda>v. common_subexpression_elimination P (the v)) vals) = Inr check \<and>
         reductions (contents s') = reductions (contents s) @ [r] \<and>
         r_domain r = reduction_domain check \<and>
         cerr s' = cerr s @
           (if reduction_domain check = None \<and>
               calls (accept_all_csr (CountSelfReferences_init (contents_ptr (contents s)))
                        (r_args r @ r_values r)) = {} \<and>
               (\<forall>i<length as0. \<exists>a t.
                  common_subexpression_elimination P (the (as0 ! i)) =
                    Variable a t (args (contents s) ! i) None None)
            then [HidesEarlierDefinitions (length (reductions (contents s)))
                    (name (contents s))]
            else []))) \<and>
   (\<forall>e s1. Function_define_reduction P as0 vals s = Inl (e, s1) \<longrightarrow> cerr s1 = cerr s)"
proof (intro conjI allI impI)
  fix s'
  assume run: "Function_define_reduction P as0 vals s = Inr s'"
  from run show "\<exists>check r.
         accept_all_cv
           (CheckVars_init (name (contents s))
              (derive_pure_args (args (contents s))
                 (map (\<lambda>a. common_subexpression_elimination P (the a)) as0)))
           (map (\<lambda>a. common_subexpression_elimination P (the a)) as0 @
            map (\<lambda>v. common_subexpression_elimination P (the v)) vals) = Inr check \<and>
         reductions (contents s') = reductions (contents s) @ [r] \<and>
         r_domain r = reduction_domain check \<and>
         cerr s' = cerr s @
           (if reduction_domain check = None \<and>
               calls (accept_all_csr (CountSelfReferences_init (contents_ptr (contents s)))
                        (r_args r @ r_values r)) = {} \<and>
               (\<forall>i<length as0. \<exists>a t.
                  common_subexpression_elimination P (the (as0 ! i)) =
                    Variable a t (args (contents s) ! i) None None)
            then [HidesEarlierDefinitions (length (reductions (contents s)))
                    (name (contents s))]
            else [])"
  proof (cases rule: define_reduction_InrE)
    case (Update f as2 vals1 pargs check as3 vals3 counter rc r)
    have chk: "accept_all_cv
           (CheckVars_init (name (contents s))
              (derive_pure_args (args (contents s))
                 (map (\<lambda>a. common_subexpression_elimination P (the a)) as0)))
           (map (\<lambda>a. common_subexpression_elimination P (the a)) as0 @
            map (\<lambda>v. common_subexpression_elimination P (the v)) vals) = Inr check"
      using Update(5) unfolding Update(4) Update(3) Update(2) Update(1) .
    have app: "reductions (contents s') = reductions (contents s) @ [r]"
      unfolding Update(11) Update(1) by simp
    have dom: "r_domain r = reduction_domain check" unfolding Update(10) by simp
    have pure: "all_pure (args f) as2 =
        (\<forall>i<length as0. \<exists>a t.
           common_subexpression_elimination P (the (as0 ! i)) =
             Variable a t (args (contents s) ! i) None None)"
      unfolding all_pure_iff Update(2) Update(1) by simp
    have cnt: "counter =
        accept_all_csr (CountSelfReferences_init (contents_ptr (contents s)))
          (r_args r @ r_values r)"
      using Update(1,8,10) by simp
    have "cerr s' = cerr s @
           (if reduction_domain check = None \<and>
               calls (accept_all_csr (CountSelfReferences_init (contents_ptr (contents s)))
                        (r_args r @ r_values r)) = {} \<and>
               (\<forall>i<length as0. \<exists>a t.
                  common_subexpression_elimination P (the (as0 ! i)) =
                    Variable a t (args (contents s) ! i) None None)
            then [HidesEarlierDefinitions (length (reductions (contents s)))
                    (name (contents s))]
            else [])"
      unfolding Update(11) pure cnt[symmetric] using Update(1) by (simp add: defined_def)
    with chk app dom show ?thesis by blast
  qed
next
  fix e s1
  assume "Function_define_reduction P as0 vals s = Inl (e, s1)"
  from define_reduction_InlD[OF this] show "cerr s1 = cerr s" by auto
qed

lemma ex_swapped_run:
  "Function_define_reduction ex_passes [Some ex_x, Some ex_y]
     [Some (Other 8 ex_int [ex_call 4 [ex_y, ex_x], ex_one])] ex_state =
   Inl (InvalidRecursiveReference, ex_state)"
  by (simp add: run_defs ex_defs upt_rec)

lemma ex_nonpure_run:
  "Function_define_reduction ex_passes [Some ex_x, Some ex_one]
     [Some (Other 8 ex_int [ex_x, ex_one])] ex_state = Inr ex_nonpure_done"
  by (simp add: run_defs ex_defs ex_nonpure_def ex_nonpure_done_def upt_rec)

text \<open>
  Four calls on \<open>f(x, y) = x + y\<close>: \<open>f(x, y) = x + 1\<close> is reported; \<open>f(x, 1) = x + 1\<close>, which has
  a position that is not pure, and \<open>f(x, i) = f(x, i) * 2\<close>, which has a domain and a call to
  \<open>f\<close>, succeed without advisory; the rejected \<open>f(x, y) = f(y, x) + 1\<close> writes nothing.
\<close>

theorem hides_advisory_witness:
  "Function_define_reduction ex_passes [Some ex_x, Some ex_y]
     [Some (Other 8 ex_int [ex_x, ex_one])] ex_state = Inr ex_hidden \<and>
   reductions (contents ex_hidden) = [ex_hiding] \<and>
   cerr ex_hidden = cerr ex_state @ [HidesEarlierDefinitions 0 ''f''] \<and>
   Function_define_reduction ex_passes [Some ex_x, Some ex_one]
     [Some (Other 8 ex_int [ex_x, ex_one])] ex_state = Inr ex_nonpure_done \<and>
   cerr ex_nonpure_done = cerr ex_state \<and>
   Function_define_reduction ex_passes [Some ex_x, Some ex_i] ex_update_values ex_state =
     Inr ex_updated \<and>
   cerr ex_updated = cerr ex_state \<and>
   Function_define_reduction ex_passes [Some ex_x, Some ex_y]
     [Some (Other 8 ex_int [ex_call 4 [ex_y, ex_x], ex_one])] ex_state =
     Inl (InvalidRecursiveReference, ex_state) \<and>
   cerr ex_state = []"
proof -
  txt \<open>all three conditions hold: the advisory is written\<close>
  from hides_advisory[of ex_passes "[Some ex_x, Some ex_y]"
      "[Some (Other 8 ex_int [ex_x, ex_one])]" ex_state] ex_hiding_run
  obtain check r where
    k1: "accept_all_cv
           (CheckVars_init (name (contents ex_state))
              (derive_pure_args (args (contents ex_state))
                 (map (\<lambda>a. common_subexpression_elimination ex_passes (the a))
                    [Some ex_x, Some ex_y])))
           (map (\<lambda>a. common_subexpression_elimination ex_passes (the a))
              [Some ex_x, Some ex_y] @
            map (\<lambda>v. common_subexpression_elimination ex_passes (the v))
              [Some (Other 8 ex_int [ex_x, ex_one])]) = Inr check" and
    a1: "reductions (contents ex_hidden) = reductions (contents ex_state) @ [r]" and
    b1: "cerr ex_hidden = cerr ex_state @
           (if reduction_domain check = None \<and>
               calls (accept_all_csr
                        (CountSelfReferences_init (contents_ptr (contents ex_state)))
                        (r_args r @ r_values r)) = {} \<and>
               (\<forall>i<length [Some ex_x, Some ex_y]. \<exists>a t.
                  common_subexpression_elimination ex_passes
                    (the ([Some ex_x, Some ex_y] ! i)) =
                    Variable a t (args (contents ex_state) ! i) None None)
            then [HidesEarlierDefinitions (length (reductions (contents ex_state)))
                    (name (contents ex_state))]
            else [])"
    by blast
  from a1 have r1: "r = ex_hiding"
    by (simp add: ex_hidden_def ex_state_def ex_contents_def)
  from k1 have d1: "reduction_domain check = None"
    by (auto simp: ex_defs derive_pure_args_def defined_def CheckVars_init_def
        visit_Variable_def upt_rec)
  have p1: "\<forall>i<length [Some ex_x, Some ex_y]. \<exists>a t.
                  common_subexpression_elimination ex_passes
                    (the ([Some ex_x, Some ex_y] ! i)) =
                    Variable a t (args (contents ex_state) ! i) None None"
    by (auto simp: ex_defs less_Suc_eq)
  have n1: "calls (accept_all_csr
                        (CountSelfReferences_init (contents_ptr (contents ex_state)))
                        (r_args ex_hiding @ r_values ex_hiding)) = {}"
    by (simp add: ex_defs CountSelfReferences_init_def)
  have c1: "cerr ex_hidden = cerr ex_state @ [HidesEarlierDefinitions 0 ''f'']"
    unfolding b1 r1 using d1 p1 n1 by (simp add: ex_state_def ex_contents_def)
  txt \<open>a position that is not pure: no advisory\<close>
  from hides_advisory[of ex_passes "[Some ex_x, Some ex_one]"
      "[Some (Other 8 ex_int [ex_x, ex_one])]" ex_state] ex_nonpure_run
  obtain check2 and r2 :: ReductionDefinition where
    k2: "accept_all_cv
           (CheckVars_init (name (contents ex_state))
              (derive_pure_args (args (contents ex_state))
                 (map (\<lambda>a. common_subexpression_elimination ex_passes (the a))
                    [Some ex_x, Some ex_one])))
           (map (\<lambda>a. common_subexpression_elimination ex_passes (the a))
              [Some ex_x, Some ex_one] @
            map (\<lambda>v. common_subexpression_elimination ex_passes (the v))
              [Some (Other 8 ex_int [ex_x, ex_one])]) = Inr check2" and
    b2: "cerr ex_nonpure_done = cerr ex_state @
           (if reduction_domain check2 = None \<and>
               calls (accept_all_csr
                        (CountSelfReferences_init (contents_ptr (contents ex_state)))
                        (r_args r2 @ r_values r2)) = {} \<and>
               (\<forall>i<length [Some ex_x, Some ex_one]. \<exists>a t.
                  common_subexpression_elimination ex_passes
                    (the ([Some ex_x, Some ex_one] ! i)) =
                    Variable a t (args (contents ex_state) ! i) None None)
            then [HidesEarlierDefinitions (length (reductions (contents ex_state)))
                    (name (contents ex_state))]
            else [])"
    by blast
  have "\<not> (\<exists>a t. common_subexpression_elimination ex_passes
                    (the ([Some ex_x, Some ex_one] ! 1)) =
                    Variable a t (args (contents ex_state) ! 1) None None)"
    by (simp add: ex_defs)
  then have p2: "\<not> (\<forall>i<length [Some ex_x, Some ex_one]. \<exists>a t.
                  common_subexpression_elimination ex_passes
                    (the ([Some ex_x, Some ex_one] ! i)) =
                    Variable a t (args (contents ex_state) ! i) None None)"
    by (metis length_Cons list.size(3) lessI One_nat_def)
  have c2: "cerr ex_nonpure_done = cerr ex_state" unfolding b2 using p2 by simp
  txt \<open>a reduction domain and a call to the function: no advisory\<close>
  from hides_advisory[of ex_passes "[Some ex_x, Some ex_i]" ex_update_values ex_state]
    ex_update_run
  obtain check3 and r3 :: ReductionDefinition where
    k3: "accept_all_cv
           (CheckVars_init (name (contents ex_state))
              (derive_pure_args (args (contents ex_state))
                 (map (\<lambda>a. common_subexpression_elimination ex_passes (the a))
                    [Some ex_x, Some ex_i])))
           (map (\<lambda>a. common_subexpression_elimination ex_passes (the a))
              [Some ex_x, Some ex_i] @
            map (\<lambda>v. common_subexpression_elimination ex_passes (the v))
              ex_update_values) = Inr check3" and
    b3: "cerr ex_updated = cerr ex_state @
           (if reduction_domain check3 = None \<and>
               calls (accept_all_csr
                        (CountSelfReferences_init (contents_ptr (contents ex_state)))
                        (r_args r3 @ r_values r3)) = {} \<and>
               (\<forall>i<length [Some ex_x, Some ex_i]. \<exists>a t.
                  common_subexpression_elimination ex_passes
                    (the ([Some ex_x, Some ex_i] ! i)) =
                    Variable a t (args (contents ex_state) ! i) None None)
            then [HidesEarlierDefinitions (length (reductions (contents ex_state)))
                    (name (contents ex_state))]
            else [])"
    by blast
  from k3 have d3: "reduction_domain check3 \<noteq> None"
    by (auto simp: ex_defs derive_pure_args_def defined_def CheckVars_init_def
        visit_Variable_def same_as_def self_call_loop.simps upt_rec)
  have c3: "cerr ex_updated = cerr ex_state" unfolding b3 using d3 by simp
  txt \<open>a failing call: nothing is written\<close>
  from hides_advisory[of ex_passes "[Some ex_x, Some ex_y]"
      "[Some (Other 8 ex_int [ex_call 4 [ex_y, ex_x], ex_one])]" ex_state] ex_swapped_run
  have c4: "cerr ex_state = cerr ex_state" by blast
  have e: "cerr ex_state = []" by (simp add: ex_state_def)
  from a1 r1 have l: "reductions (contents ex_hidden) = [ex_hiding]"
    by (simp add: ex_state_def ex_contents_def)
  from ex_hiding_run l c1 ex_nonpure_run c2 ex_update_run c3 ex_swapped_run e
  show ?thesis by blast
qed

text \<open>
  C6. For every position \<open>i\<close> of an update: if \<^verbatim>\<open>args[i]\<close> is a variable without parameter
  and without reduction domain whose name is the \<open>i\<close>-th argument name of the pure
  definition, then \<^verbatim>\<open>pure_args[i]\<close> is that name; in every other case \<^verbatim>\<open>pure_args[i]\<close> is
  empty and the update is not pure.
\<close>

theorem pure_args_derivation:
  assumes "i < length as"
  shows "(if \<exists>a t n. as ! i = Variable a t n None None \<and> n = pas ! i
          then \<exists>a t n. as ! i = Variable a t n None None \<and> derive_pure_args pas as ! i = n
          else derive_pure_args pas as ! i = [] \<and> \<not> all_pure pas as)"
proof (cases "\<exists>a t. as ! i = Variable a t (pas ! i) None None")
  case True
  then show ?thesis using assms by (auto simp: derive_pure_args_nth derive_pure_arg_eq)
next
  case False
  with assms have "\<not> all_pure pas as" unfolding all_pure_iff by blast
  with False assms show ?thesis by (auto simp: derive_pure_args_nth derive_pure_arg_eq)
qed

theorem pure_args_derivation_witness:
  "(0::nat) < length [ex_x, ex_i] \<and> (1::nat) < length [ex_x, ex_i] \<and>
   derive_pure_args [''x'', ''y''] [ex_x, ex_i] ! 0 = ''x'' \<and>
   derive_pure_args [''x'', ''y''] [ex_x, ex_i] ! 1 = [] \<and>
   \<not> all_pure [''x'', ''y''] [ex_x, ex_i]"
proof -
  have h0: "(0::nat) < length [ex_x, ex_i]" and h1: "(1::nat) < length [ex_x, ex_i]"
    by simp_all
  from pure_args_derivation[OF h0, of "[''x'', ''y'']"]
  have a: "derive_pure_args [''x'', ''y''] [ex_x, ex_i] ! 0 = ''x''"
    by (simp add: ex_x_def)
  from pure_args_derivation[OF h1, of "[''x'', ''y'']"]
  have b: "derive_pure_args [''x'', ''y''] [ex_x, ex_i] ! 1 = [] \<and>
           \<not> all_pure [''x'', ''y''] [ex_x, ex_i]"
    by (simp add: ex_i_def)
  from h0 h1 a b show ?thesis by blast
qed

subsection \<open>Pure definitions and the order of definitions\<close>

lemmas define_defs = Function_define_def Let_def has_extern_definition_def
  defined_def CheckVars_init_def visit_Variable_def same_as_def check_arg_names.simps
  self_call_loop.simps buffer_name_def

lemma define_outcome:
  "Function_define P as vals s = Inl (e, s1) \<Longrightarrow>
     s1 = s \<or> s1 = s\<lparr>rand_counter := rand_counter s + 1\<rparr> \<and>
       (e = PureDefinitionHasReductionDomain \<or> e = AlreadyDefined)"
  unfolding Function_define_def Let_def
  by (auto split: if_splits sum.splits option.splits)

lemma define_Inr_undefined:
  "Function_define P as vals s = Inr s' \<Longrightarrow> fun_values (contents s) = []"
  unfolding Function_define_def Let_def
  by (auto split: if_splits sum.splits option.splits)

text \<open>
  C5. The order of the definitions is enforced, and a rejected call leaves the function as
  it was. \<^verbatim>\<open>define\<close> on a function that has a pure definition fails with the contents of
  the function unchanged, and the failure is \<open>AlreadyDefined\<close> whenever none of the checks
  that come before it in the code rejects the call; \<^verbatim>\<open>define\<close> on a function with an extern
  definition fails at once; \<^verbatim>\<open>define_reduction\<close> on a function without a pure definition
  fails with the state unchanged, with \<open>MissingPureDefinition\<close> if the function has a name.
\<close>

theorem lifecycle_order:
  "(has_pure_definition (contents s) \<longrightarrow>
      (\<exists>e s1. Function_define P as vals s = Inl (e, s1) \<and> contents s1 = contents s \<and>
         (\<not> has_extern_definition (contents s) \<and> name (contents s) \<noteq> [] \<and>
          list_all defined vals \<and> check_arg_names as 0 = None \<and>
          (\<exists>check. accept_all_cv (CheckVars_init (name (contents s)) as) (map the vals) =
                     Inr check \<and> \<not> defined (reduction_domain check))
          \<longrightarrow> e = AlreadyDefined))) \<and>
   (has_extern_definition (contents s) \<longrightarrow>
      Function_define P as vals s = Inl (ExternHasNoPureDefinition, s)) \<and>
   (\<not> has_pure_definition (contents s) \<longrightarrow>
      (\<exists>e. Function_define_reduction P as0 vals s = Inl (e, s) \<and>
         (name (contents s) \<noteq> [] \<longrightarrow> e = MissingPureDefinition)))"
proof (intro conjI impI)
  assume pd: "has_pure_definition (contents s)"
  show "\<exists>e s1. Function_define P as vals s = Inl (e, s1) \<and> contents s1 = contents s \<and>
         (\<not> has_extern_definition (contents s) \<and> name (contents s) \<noteq> [] \<and>
          list_all defined vals \<and> check_arg_names as 0 = None \<and>
          (\<exists>check. accept_all_cv (CheckVars_init (name (contents s)) as) (map the vals) =
                     Inr check \<and> \<not> defined (reduction_domain check))
          \<longrightarrow> e = AlreadyDefined)"
  proof (cases "Function_define P as vals s")
    case (Inr s')
    from define_Inr_undefined[OF Inr] pd show ?thesis
      by (simp add: has_pure_definition_def)
  next
    case (Inl p)
    obtain e s1 where p: "p = (e, s1)" by (cases p)
    from define_outcome[OF Inl[unfolded p]] have c: "contents s1 = contents s" by auto
    have "e = AlreadyDefined"
      if "\<not> has_extern_definition (contents s)" "name (contents s) \<noteq> []"
        "list_all defined vals" "check_arg_names as 0 = None"
        "accept_all_cv (CheckVars_init (name (contents s)) as) (map the vals) = Inr check"
        "\<not> defined (reduction_domain check)" for check
      using Inl[unfolded p] that pd unfolding Function_define_def Let_def
      by (simp add: has_pure_definition_def)
    with Inl p c show ?thesis by blast
  qed
next
  assume "has_extern_definition (contents s)"
  then show "Function_define P as vals s = Inl (ExternHasNoPureDefinition, s)"
    by (simp add: Function_define_def Let_def)
next
  assume "\<not> has_pure_definition (contents s)"
  then show "\<exists>e. Function_define_reduction P as0 vals s = Inl (e, s) \<and>
         (name (contents s) \<noteq> [] \<longrightarrow> e = MissingPureDefinition)"
    by (simp add: Function_define_reduction_def Let_def)
qed

lemma ex_redefine_run:
  "Function_define ex_passes [''x'', ''y''] [Some (Other 3 ex_int [ex_x, ex_y])] ex_state =
     Inl (AlreadyDefined, ex_state\<lparr>rand_counter := 1\<rparr>)"
  by (simp add: define_defs ex_defs)

lemma ex_define_run:
  "Function_define ex_passes [''x'', ''y''] [Some (Other 3 ex_int [ex_x, ex_y])] ex_fresh =
     Inr (ex_state\<lparr>contents := ex_contents\<lparr>ref_count := 1\<rparr>, rand_counter := 1\<rparr>)"
  by (simp add: define_defs ex_defs empty_schedule_def upt_rec)


theorem lifecycle_order_witness:
  "has_pure_definition (contents ex_state) \<and>
   (\<exists>s1. Function_define ex_passes [''x'', ''y''] [Some (Other 3 ex_int [ex_x, ex_y])]
           ex_state = Inl (AlreadyDefined, s1) \<and> contents s1 = contents ex_state) \<and>
   has_extern_definition (contents ex_extern) \<and>
   Function_define ex_passes [''x'', ''y''] [Some (Other 3 ex_int [ex_x, ex_y])] ex_extern =
     Inl (ExternHasNoPureDefinition, ex_extern) \<and>
   \<not> has_pure_definition (contents ex_fresh) \<and>
   Function_define_reduction ex_passes [Some ex_x, Some ex_y]
     [Some (Other 8 ex_int [ex_x, ex_one])] ex_fresh = Inl (MissingPureDefinition, ex_fresh)"
proof -
  let ?vals = "[Some (Other 3 ex_int [ex_x, ex_y])]"
  have pd: "has_pure_definition (contents ex_state)"
    by (simp add: has_pure_definition_def ex_state_def ex_contents_def)
  have xd: "has_extern_definition (contents ex_extern)"
    by (simp add: has_extern_definition_def ex_extern_def)
  have nd: "\<not> has_pure_definition (contents ex_fresh)"
    by (simp add: has_pure_definition_def ex_fresh_def)
  have nm: "name (contents ex_fresh) \<noteq> []" by (simp add: ex_fresh_def)
  have pre: "\<not> has_extern_definition (contents ex_state) \<and> name (contents ex_state) \<noteq> [] \<and>
      list_all defined ?vals \<and> check_arg_names [''x'', ''y''] 0 = None \<and>
      (\<exists>check. accept_all_cv (CheckVars_init (name (contents ex_state)) [''x'', ''y''])
                  (map the ?vals) = Inr check \<and> \<not> defined (reduction_domain check))"
    by (simp add: define_defs ex_defs)
  from lifecycle_order[of ex_state ex_passes "[''x'', ''y'']" ?vals] pd
  obtain e s1 where
    run: "Function_define ex_passes [''x'', ''y''] ?vals ex_state = Inl (e, s1)" and
    c: "contents s1 = contents ex_state" and
    imp: "\<not> has_extern_definition (contents ex_state) \<and> name (contents ex_state) \<noteq> [] \<and>
      list_all defined ?vals \<and> check_arg_names [''x'', ''y''] 0 = None \<and>
      (\<exists>check. accept_all_cv (CheckVars_init (name (contents ex_state)) [''x'', ''y''])
                  (map the ?vals) = Inr check \<and> \<not> defined (reduction_domain check))
      \<longrightarrow> e = AlreadyDefined"
    by blast
  from imp pre have e: "e = AlreadyDefined" by blast
  from lifecycle_order[of ex_extern ex_passes "[''x'', ''y'']" ?vals] xd
  have x: "Function_define ex_passes [''x'', ''y''] ?vals ex_extern =
     Inl (ExternHasNoPureDefinition, ex_extern)" by blast
  from lifecycle_order[of ex_fresh ex_passes _ "[Some (Other 8 ex_int [ex_x, ex_one])]"
      "[Some ex_x, Some ex_y]"] nd nm
  have m: "Function_define_reduction ex_passes [Some ex_x, Some ex_y]
     [Some (Other 8 ex_int [ex_x, ex_one])] ex_fresh = Inl (MissingPureDefinition, ex_fresh)"
    by blast
  from pd xd nd run[unfolded e] c x m show ?thesis by blast
qed

lemma define_has_rdom:
  assumes "accept_all_cv (CheckVars_init (name (contents s)) as) (map the vals) = Inr check"
    and "defined (reduction_domain check)"
  shows "\<exists>e s1. Function_define P as vals s = Inl (e, s1) \<and>
     (\<not> has_extern_definition (contents s) \<and> name (contents s) \<noteq> [] \<and>
      list_all defined vals \<and> check_arg_names as 0 = None
      \<longrightarrow> e = PureDefinitionHasReductionDomain)"
  using assms unfolding Function_define_def Let_def
  by (cases "check_arg_names as 0") simp_all

lemma ex_shadowed_domain_run:
  "Function_define_reduction ex_passes [Some ex_x, Some ex_i]
     [Some (Other 8 ex_int [ex_i, ex_xj])] ex_state = Inr ex_two_done"
  by (simp add: run_defs ex_defs ex_xj_def ex_two_done_def upt_rec)

text \<open>
  C4 as stated fails. The tests for a parameter, a let binding and the name of a pure
  argument come before the test of the reduction domain: a variable named like the pure
  argument \<open>x\<close> is accepted although it carries a second domain, a variable named like a
  pure argument records nothing, and the update \<open>f(x, i) = i + x\<close> whose \<open>i\<close> and \<open>x\<close> carry two
  distinct domains is added.
\<close>

theorem reduction_domain_tracking_counterexample:
  "rdom_ptr ex_rdom2 \<noteq> rdom_ptr ex_rdom \<and>
   visit_Variable ((CheckVars_init ''f'' [''x''])\<lparr>reduction_domain := Some ex_rdom\<rparr>)
     ''x'' None (Some ex_rdom2) =
     Inr ((CheckVars_init ''f'' [''x''])\<lparr>reduction_domain := Some ex_rdom\<rparr>) \<and>
   visit_Variable (CheckVars_init ''f'' [''i'']) ''i'' None (Some ex_rdom) =
     Inr (CheckVars_init ''f'' [''i'']) \<and>
   reduction_domain (CheckVars_init ''f'' [''i'']) = None \<and>
   Function_define_reduction ex_passes [Some ex_x, Some ex_i]
     [Some (Other 8 ex_int [ex_i, ex_xj])] ex_state = Inr ex_two_done"
  using ex_shadowed_domain_run
  by (simp add: visit_Variable_def CheckVars_init_def defined_def ex_rdom_def ex_rdom2_def)

text \<open>
  C4, as the code has it. A variable that is a parameter, or bound by a let, or named
  like a pure argument is accepted as it is, whatever domain it carries, and the visitor
  is unchanged. For every other variable that carries a reduction domain: if no domain is
  recorded yet, the visitor records this one and accepts; if the recorded domain is the
  same object, it accepts; if it is another object, the result is
  \<open>ConflictingReductionDomain\<close>. And \<^verbatim>\<open>define\<close> fails whenever the validation of its values
  has recorded a domain, with \<open>PureDefinitionHasReductionDomain\<close> when the checks before
  that one pass.
\<close>

theorem reduction_domain_tracking:
  "(defined param \<or> n \<in> set (defined_internally c) \<or> n \<in> set (pure_args c) \<longrightarrow>
      visit_Variable c n param rd = Inr c) \<and>
   (\<not> defined param \<and> n \<notin> set (defined_internally c) \<and> n \<notin> set (pure_args c) \<longrightarrow>
      visit_Variable c n param (Some d) =
        (case reduction_domain c of
           None \<Rightarrow> Inr (c\<lparr>reduction_domain := Some d\<rparr>)
         | Some d0 \<Rightarrow>
             if rdom_ptr d = rdom_ptr d0 then Inr c else Inl ConflictingReductionDomain)) \<and>
   (accept_all_cv (CheckVars_init (name (contents s)) as) (map the vals) = Inr check \<and>
    defined (reduction_domain check) \<longrightarrow>
      (\<exists>e s1. Function_define P as vals s = Inl (e, s1) \<and>
         (\<not> has_extern_definition (contents s) \<and> name (contents s) \<noteq> [] \<and>
          list_all defined vals \<and> check_arg_names as 0 = None
          \<longrightarrow> e = PureDefinitionHasReductionDomain)))"
proof (intro conjI impI)
  assume "defined param \<or> n \<in> set (defined_internally c) \<or> n \<in> set (pure_args c)"
  then show "visit_Variable c n param rd = Inr c"
    by (auto simp: visit_Variable_def)
next
  assume "\<not> defined param \<and> n \<notin> set (defined_internally c) \<and> n \<notin> set (pure_args c)"
  then show "visit_Variable c n param (Some d) =
        (case reduction_domain c of
           None \<Rightarrow> Inr (c\<lparr>reduction_domain := Some d\<rparr>)
         | Some d0 \<Rightarrow>
             if rdom_ptr d = rdom_ptr d0 then Inr c else Inl ConflictingReductionDomain)"
    by (simp add: visit_Variable_def defined_def same_as_def split: option.splits)
next
  assume "accept_all_cv (CheckVars_init (name (contents s)) as) (map the vals) = Inr check \<and>
    defined (reduction_domain check)"
  then show "\<exists>e s1. Function_define P as vals s = Inl (e, s1) \<and>
         (\<not> has_extern_definition (contents s) \<and> name (contents s) \<noteq> [] \<and>
          list_all defined vals \<and> check_arg_names as 0 = None
          \<longrightarrow> e = PureDefinitionHasReductionDomain)"
    using define_has_rdom by blast
qed

theorem reduction_domain_tracking_witness:
  "visit_Variable ((CheckVars_init ''f'' [''x''])\<lparr>reduction_domain := Some ex_rdom\<rparr>)
     ''x'' None (Some ex_rdom2) =
     Inr ((CheckVars_init ''f'' [''x''])\<lparr>reduction_domain := Some ex_rdom\<rparr>) \<and>
   visit_Variable (CheckVars_init ''f'' [''x'']) ''i'' None (Some ex_rdom) =
     Inr ((CheckVars_init ''f'' [''x''])\<lparr>reduction_domain := Some ex_rdom\<rparr>) \<and>
   visit_Variable ((CheckVars_init ''f'' [''x''])\<lparr>reduction_domain := Some ex_rdom\<rparr>)
     ''i'' None (Some ex_rdom) =
     Inr ((CheckVars_init ''f'' [''x''])\<lparr>reduction_domain := Some ex_rdom\<rparr>) \<and>
   visit_Variable ((CheckVars_init ''f'' [''x''])\<lparr>reduction_domain := Some ex_rdom\<rparr>)
     ''j'' None (Some ex_rdom2) = Inl ConflictingReductionDomain \<and>
   accept_all_cv (CheckVars_init (name (contents ex_fresh)) [''x'']) (map the [Some ex_i]) =
     Inr ((CheckVars_init ''f'' [''x''])\<lparr>reduction_domain := Some ex_rdom\<rparr>) \<and>
   (\<exists>s1. Function_define ex_passes [''x''] [Some ex_i] ex_fresh =
      Inl (PureDefinitionHasReductionDomain, s1))"
proof -
  let ?c0 = "CheckVars_init ''f'' [''x'']"
  let ?c1 = "?c0\<lparr>reduction_domain := Some ex_rdom\<rparr>"
  have hx: "defined (None :: Parameter option) \<or> ''x'' \<in> set (defined_internally ?c1) \<or>
            ''x'' \<in> set (pure_args ?c1)"
    and h0: "\<not> defined (None :: Parameter option) \<and> ''i'' \<notin> set (defined_internally ?c0) \<and>
            ''i'' \<notin> set (pure_args ?c0)"
    and h1: "\<not> defined (None :: Parameter option) \<and> ''i'' \<notin> set (defined_internally ?c1) \<and>
            ''i'' \<notin> set (pure_args ?c1)"
    and h2: "\<not> defined (None :: Parameter option) \<and> ''j'' \<notin> set (defined_internally ?c1) \<and>
            ''j'' \<notin> set (pure_args ?c1)"
    by (simp_all add: defined_def CheckVars_init_def)
  have run: "accept_all_cv (CheckVars_init (name (contents ex_fresh)) [''x''])
               (map the [Some ex_i]) = Inr ?c1"
    by (simp add: ex_defs CheckVars_init_def visit_Variable_def defined_def)
  have d: "defined (reduction_domain ?c1)" by (simp add: defined_def)
  have pre: "\<not> has_extern_definition (contents ex_fresh) \<and> name (contents ex_fresh) \<noteq> [] \<and>
          list_all defined [Some ex_i] \<and> check_arg_names [''x''] 0 = None"
    by (simp add: ex_fresh_def has_extern_definition_def defined_def check_arg_names.simps)
  from reduction_domain_tracking[of None "''x''" ?c1 "Some ex_rdom2"] hx
  have x: "visit_Variable ?c1 ''x'' None (Some ex_rdom2) = Inr ?c1" by blast
  from reduction_domain_tracking[of None "''i''" ?c0 _ ex_rdom] h0
  have a: "visit_Variable ?c0 ''i'' None (Some ex_rdom) = Inr ?c1"
    by (simp add: CheckVars_init_def)
  from reduction_domain_tracking[of None "''i''" ?c1 _ ex_rdom] h1
  have b: "visit_Variable ?c1 ''i'' None (Some ex_rdom) = Inr ?c1"
    by (simp add: CheckVars_init_def)
  from reduction_domain_tracking[of None "''j''" ?c1 _ ex_rdom2] h2
  have c: "visit_Variable ?c1 ''j'' None (Some ex_rdom2) = Inl ConflictingReductionDomain"
    by (simp add: CheckVars_init_def ex_rdom_def ex_rdom2_def)
  from reduction_domain_tracking[of None "''i''" ?c0 _ ex_rdom ex_fresh "[''x'']"
      "[Some ex_i]" ?c1 ex_passes] run d pre
  have "\<exists>s1. Function_define ex_passes [''x''] [Some ex_i] ex_fresh =
      Inl (PureDefinitionHasReductionDomain, s1)" by blast
  with x a b c run show ?thesis by blast
qed

lemma ex_two_domains_run:
  "Function_define_reduction ex_passes [Some ex_x, Some ex_i]
     [Some (Other 8 ex_int [ex_i, ex_j])] ex_state =
   Inl (ConflictingReductionDomain, ex_state)"
  by (simp add: run_defs ex_defs upt_rec)

subsection \<open>Extern definitions\<close>

lemma digit_char_inj: "a < 10 \<Longrightarrow> b < 10 \<Longrightarrow> digit_char a = digit_char b \<Longrightarrow> a = b"
  by (simp add: digit_char_def char_of_eq_iff take_bit_nat_eq_self)

lemma int_to_string_nonempty: "int_to_string n \<noteq> []"
  by (subst int_to_string.simps) simp

lemma int_to_string_inj: "int_to_string n = int_to_string m \<Longrightarrow> n = m"
proof (induction n arbitrary: m rule: int_to_string.induct)
  case (1 n)
  show ?case
  proof (cases "n < 10")
    case True
    note n = this
    show ?thesis
    proof (cases "m < 10")
      case True
      with n "1.prems" show ?thesis
        by (simp add: int_to_string.simps[of n] int_to_string.simps[of m] digit_char_inj)
    next
      case False
      with n "1.prems" int_to_string_nonempty[of "m div 10"] show ?thesis
        by (simp add: int_to_string.simps[of n] int_to_string.simps[of m])
    qed
  next
    case False
    note n = this
    show ?thesis
    proof (cases "m < 10")
      case True
      with n "1.prems" int_to_string_nonempty[of "n div 10"] show ?thesis
        by (simp add: int_to_string.simps[of n] int_to_string.simps[of m])
    next
      case False
      with n "1.prems" have a: "int_to_string (n div 10) = int_to_string (m div 10)"
        and b: "digit_char (n mod 10) = digit_char (m mod 10)"
        by (simp_all add: int_to_string.simps[of n] int_to_string.simps[of m])
      from "1.IH"[OF n a] have "n div 10 = m div 10" .
      moreover from b have "n mod 10 = m mod 10" by (simp add: digit_char_inj)
      ultimately show ?thesis by (metis div_mult_mod_eq)
    qed
  qed
qed

lemma synthetic_names_Suc:
  "synthetic_names st (Suc k) = (CHR ''e'' # int_to_string st) # synthetic_names (Suc st) k"
  by (simp add: synthetic_names_def map_upt_Suc del: upt_Suc)

lemma synthetic_names_distinct: "distinct (synthetic_names st k)"
  by (auto simp: synthetic_names_def distinct_map inj_on_def dest: int_to_string_inj)

text \<open>A name comes out of \<^verbatim>\<open>unique_name('e')\<close> at one value of the counter only.\<close>

lemma synthetic_names_member:
  "(fst (unique_name CHR ''e'' (s\<lparr>instances := (instances s)(CHR ''e'' := k)\<rparr>))
      \<in> set (synthetic_names st n)) = (st \<le> k \<and> k < st + n)"
proof -
  have "(\<exists>j<n. int_to_string k = int_to_string (st + j)) = (st \<le> k \<and> k < st + n)"
  proof
    assume "\<exists>j<n. int_to_string k = int_to_string (st + j)"
    then obtain j where "j < n" "k = st + j" by (auto dest: int_to_string_inj)
    then show "st \<le> k \<and> k < st + n" by simp
  next
    assume "st \<le> k \<and> k < st + n"
    then have "k - st < n" "k = st + (k - st)" by auto
    then show "\<exists>j<n. int_to_string k = int_to_string (st + j)" by metis
  qed
  then show ?thesis
    by (auto simp: unique_name_def synthetic_names_def image_iff Bex_def)
qed

lemma extern_args_loop_eq:
  "i \<le> n \<Longrightarrow> length (args (contents s)) = n \<Longrightarrow>
   instances (extern_args_loop n i s) CHR ''e'' = instances s CHR ''e'' + (n - i) \<and>
   args (contents (extern_args_loop n i s)) =
     take i (args (contents s)) @ synthetic_names (instances s CHR ''e'') (n - i) \<and>
   storage_dims (schedule (contents (extern_args_loop n i s))) =
     storage_dims (schedule (contents s)) @ synthetic_names (instances s CHR ''e'') (n - i) \<and>
   dims (schedule (contents (extern_args_loop n i s))) = dims (schedule (contents s))"
proof (induction n i s rule: extern_args_loop.induct)
  case (1 n i s)
  show ?case
  proof (cases "i < n")
    case False
    with "1.prems" have "i = n" by simp
    with "1.prems" show ?thesis
      by (subst (1 2 3 4) extern_args_loop.simps) (simp add: synthetic_names_def)
  next
    case True
    let ?arg = "CHR ''e'' # int_to_string (instances s CHR ''e'')"
    let ?s1 = "s\<lparr>instances := (instances s)(CHR ''e'' := Suc (instances s CHR ''e''))\<rparr>"
    let ?s2 = "?s1\<lparr>contents := (contents ?s1)
        \<lparr>args := (args (contents ?s1))[i := ?arg],
         schedule := (schedule (contents ?s1))
           \<lparr>storage_dims := storage_dims (schedule (contents ?s1)) @ [?arg]\<rparr>\<rparr>\<rparr>"
    have u: "unique_name CHR ''e'' s = (?arg, ?s1)" by (simp add: unique_name_def)
    have step: "extern_args_loop n i s = extern_args_loop n (Suc i) ?s2"
      using True by (subst extern_args_loop.simps) (simp add: u Let_def)
    have len: "length (args (contents ?s2)) = n" using "1.prems" by simp
    have le: "Suc i \<le> n" using True by simp
    note ih = "1.IH"[OF True refl u[symmetric] refl refl le len]
    have k: "n - i = Suc (n - Suc i)" using True by simp
    have t: "take (Suc i) ((args (contents s))[i := ?arg]) = take i (args (contents s)) @ [?arg]"
      using True "1.prems" by (simp add: take_Suc_conv_app_nth)
    have sel: "instances ?s2 CHR ''e'' = Suc (instances s CHR ''e'')"
      "args (contents ?s2) = (args (contents s))[i := ?arg]"
      "storage_dims (schedule (contents ?s2)) = storage_dims (schedule (contents s)) @ [?arg]"
      "dims (schedule (contents ?s2)) = dims (schedule (contents s))"
      by simp_all
    show ?thesis unfolding step using ih unfolding sel k synthetic_names_Suc t by simp
  qed
qed


lemma int_to_string_0_1:
  "int_to_string 0 = ''0''" "int_to_string (Suc 0) = ''1''"
  by code_simp+

lemma ex_extern_run:
  "Function_define_extern ''ext'' [] [ex_int] 2 ex_fresh = Inr ex_extern"
  by (simp add: Function_define_extern_def Let_def has_pure_definition_def
      has_reduction_definition_def has_extern_definition_def buffer_name_def resize_def
      extern_args_loop.simps unique_name_def int_to_string_0_1
      ex_fresh_def ex_extern_def ex_int_def empty_schedule_def numeral_2_eq_2 fun_eq_iff)

lemma define_extern_InrD:
  assumes "Function_define_extern fn eargs types d s = Inr s'"
  shows "0 \<le> d \<and>
     s' = extern_args_loop (nat d) 0
       (s\<lparr>contents := (contents s)
          \<lparr>extern_function_name := fn, extern_arguments := eargs, output_types := types,
           output_buffers := output_buffers (contents s) @
             map (\<lambda>i. \<lparr>p_type = types ! i, p_is_buffer = True,
                       p_name = buffer_name (name (contents s)) (length types) i\<rparr>)
               [0..<length types],
           args := resize (nat d) (args (contents s))\<rparr>\<rparr>)"
  using assms unfolding Function_define_extern_def Let_def
  by (auto split: if_splits)

lemma length_resize: "length (resize n xs) = n"
  by (simp add: resize_def)

lemma define_InrD:
  assumes "Function_define P as vals s = Inr s'"
  shows "dims (schedule (contents s')) =
       dims (schedule (contents s)) @ map (\<lambda>a. \<lparr>dim_var = a, for_type = Serial\<rparr>) as \<and>
     storage_dims (schedule (contents s')) = storage_dims (schedule (contents s)) @ as \<and>
     args (contents s') = as"
  using assms unfolding Function_define_def Let_def
  by (auto split: if_splits sum.splits option.splits)

text \<open>
  C8, as the code has it. A successful \<^verbatim>\<open>define_extern\<close> with dimensionality \<open>d\<close> sets the
  argument list to the \<open>d\<close> names that \<^verbatim>\<open>unique_name('e')\<close> hands out next, which are
  pairwise distinct, advances the counter of that prefix by \<open>d\<close>, and appends the names to
  the storage dimensions of the schedule; the loop dimensions of the schedule are left as
  they were. A pure definition appends its argument names to both lists.
\<close>

theorem extern_synthetic_names:
  "(Function_define_extern fn eargs types d s = Inr s' \<longrightarrow>
      0 \<le> d \<and> args (contents s') = synthetic_names (instances s CHR ''e'') (nat d) \<and>
      length (args (contents s')) = nat d \<and> distinct (args (contents s')) \<and>
      instances s' CHR ''e'' = instances s CHR ''e'' + nat d \<and>
      (\<forall>k. (fst (unique_name CHR ''e'' (s\<lparr>instances := (instances s)(CHR ''e'' := k)\<rparr>))
              \<in> set (args (contents s'))) =
           (instances s CHR ''e'' \<le> k \<and> k < instances s' CHR ''e'')) \<and>
      storage_dims (schedule (contents s')) =
        storage_dims (schedule (contents s)) @ args (contents s') \<and>
      dims (schedule (contents s')) = dims (schedule (contents s))) \<and>
   (Function_define P as vals s = Inr s'' \<longrightarrow>
      args (contents s'') = as \<and>
      storage_dims (schedule (contents s'')) = storage_dims (schedule (contents s)) @ as \<and>
      dims (schedule (contents s'')) =
        dims (schedule (contents s)) @ map (\<lambda>a. \<lparr>dim_var = a, for_type = Serial\<rparr>) as)"
proof (intro conjI impI)
  assume run: "Function_define_extern fn eargs types d s = Inr s'"
  let ?s0 = "s\<lparr>contents := (contents s)
          \<lparr>extern_function_name := fn, extern_arguments := eargs, output_types := types,
           output_buffers := output_buffers (contents s) @
             map (\<lambda>i. \<lparr>p_type = types ! i, p_is_buffer = True,
                       p_name = buffer_name (name (contents s)) (length types) i\<rparr>)
               [0..<length types],
           args := resize (nat d) (args (contents s))\<rparr>\<rparr>"
  from define_extern_InrD[OF run] have d: "0 \<le> d"
    and s': "s' = extern_args_loop (nat d) 0 ?s0" by simp_all
  have len: "length (args (contents ?s0)) = nat d" by (simp add: length_resize)
  from extern_args_loop_eq[OF le0 len]
  have a: "args (contents s') = synthetic_names (instances s CHR ''e'') (nat d)"
    and i: "instances s' CHR ''e'' = instances s CHR ''e'' + nat d"
    and st: "storage_dims (schedule (contents s')) =
       storage_dims (schedule (contents s)) @ synthetic_names (instances s CHR ''e'') (nat d)"
    and dm: "dims (schedule (contents s')) = dims (schedule (contents s))"
    unfolding s' by simp_all
  show "0 \<le> d" by (rule d)
  show "args (contents s') = synthetic_names (instances s CHR ''e'') (nat d)" by (rule a)
  show "length (args (contents s')) = nat d" unfolding a by (simp add: synthetic_names_def)
  show "distinct (args (contents s'))" unfolding a by (rule synthetic_names_distinct)
  show "instances s' CHR ''e'' = instances s CHR ''e'' + nat d" by (rule i)
  show "\<forall>k. (fst (unique_name CHR ''e'' (s\<lparr>instances := (instances s)(CHR ''e'' := k)\<rparr>))
              \<in> set (args (contents s'))) =
           (instances s CHR ''e'' \<le> k \<and> k < instances s' CHR ''e'')"
    unfolding a i by (rule allI) (rule synthetic_names_member)
  show "storage_dims (schedule (contents s')) =
        storage_dims (schedule (contents s)) @ args (contents s')" unfolding a by (rule st)
  show "dims (schedule (contents s')) = dims (schedule (contents s))" by (rule dm)
next
  assume run: "Function_define P as vals s = Inr s''"
  from define_InrD[OF run] show "args (contents s'') = as"
    and "storage_dims (schedule (contents s'')) = storage_dims (schedule (contents s)) @ as"
    and "dims (schedule (contents s'')) =
        dims (schedule (contents s)) @ map (\<lambda>a. \<lparr>dim_var = a, for_type = Serial\<rparr>) as"
    by simp_all
qed

text \<open>
  C8 as stated fails: after \<^verbatim>\<open>define_extern\<close> with dimensionality 2 on a fresh function the
  schedule has no dimension at all.
\<close>

theorem extern_schedule_arity_counterexample:
  "Function_define_extern ''ext'' [] [ex_int] 2 ex_fresh = Inr ex_extern \<and>
   length (dims (schedule (contents ex_extern))) \<noteq> nat 2"
  using ex_extern_run by (simp add: ex_extern_def)


theorem extern_synthetic_names_witness:
  "Function_define_extern ''ext'' [] [ex_int] 2 ex_fresh = Inr ex_extern \<and>
   args (contents ex_extern) = synthetic_names 0 2 \<and>
   args (contents ex_extern) = [''e0'', ''e1''] \<and>
   distinct (args (contents ex_extern)) \<and>
   storage_dims (schedule (contents ex_extern)) = [''e0'', ''e1''] \<and>
   dims (schedule (contents ex_extern)) = [] \<and>
   Function_define ex_passes [''x'', ''y''] [Some (Other 3 ex_int [ex_x, ex_y])] ex_fresh =
     Inr (ex_state\<lparr>contents := ex_contents\<lparr>ref_count := 1\<rparr>, rand_counter := 1\<rparr>) \<and>
   dims (schedule (contents
     (ex_state\<lparr>contents := ex_contents\<lparr>ref_count := 1\<rparr>, rand_counter := 1\<rparr>))) =
     [\<lparr>dim_var = ''x'', for_type = Serial\<rparr>, \<lparr>dim_var = ''y'', for_type = Serial\<rparr>]"
proof -
  let ?d = "ex_state\<lparr>contents := ex_contents\<lparr>ref_count := 1\<rparr>, rand_counter := 1\<rparr>"
  from extern_synthetic_names[of "''ext''" "[]" "[ex_int]" 2 ex_fresh ex_extern
      ex_passes "[''x'', ''y'']" "[Some (Other 3 ex_int [ex_x, ex_y])]" ?d]
    ex_extern_run ex_define_run
  have a: "args (contents ex_extern) = synthetic_names (instances ex_fresh CHR ''e'') (nat 2)"
    and b: "distinct (args (contents ex_extern))"
    and c: "storage_dims (schedule (contents ex_extern)) =
        storage_dims (schedule (contents ex_fresh)) @ args (contents ex_extern)"
    and d: "dims (schedule (contents ex_extern)) = dims (schedule (contents ex_fresh))"
    and e: "dims (schedule (contents ?d)) =
        dims (schedule (contents ex_fresh)) @
        map (\<lambda>a. \<lparr>dim_var = a, for_type = Serial\<rparr>) [''x'', ''y'']"
    by blast+
  have n: "args (contents ex_extern) = [''e0'', ''e1'']" by (simp add: ex_extern_def)
  from a have a': "args (contents ex_extern) = synthetic_names 0 2"
    by (simp add: ex_fresh_def)
  from c n have c': "storage_dims (schedule (contents ex_extern)) = [''e0'', ''e1'']"
    by (simp add: ex_fresh_def empty_schedule_def)
  from d have d': "dims (schedule (contents ex_extern)) = []"
    by (simp add: ex_fresh_def empty_schedule_def)
  from e have e': "dims (schedule (contents ?d)) =
     [\<lparr>dim_var = ''x'', for_type = Serial\<rparr>, \<lparr>dim_var = ''y'', for_type = Serial\<rparr>]"
    by (simp add: ex_fresh_def empty_schedule_def)
  from ex_extern_run ex_define_run a' n b c' d' e' show ?thesis by blast
qed

subsection \<open>Self references\<close>

text \<open>
  The counter never collects a node that is not a call to the function: what it collects is
  a subset of the set the spec describes.
\<close>

lemma csr_subset:
  "func (accept_csr c e) = func c \<and>
   calls (accept_csr c e) \<subseteq> calls c \<union> spec_self_call_nodes (func c) e"
  "func (include_csr c e) = func c \<and>
   calls (include_csr c e) \<subseteq> calls c \<union> spec_self_call_nodes (func c) e"
  "func (include_list_csr c es) = func c \<and>
   calls (include_list_csr c es) \<subseteq> calls c \<union> (\<Union>e\<in>set es. spec_self_call_nodes (func c) e)"
proof (induction c e and c e and c es rule: accept_csr_include_csr_include_list_csr.induct)
  case (1 c a t n pa rd)
  show ?case by simp
next
  case (2 c a t n v b)
  from "2.IH" show ?case by auto
next
  case (3 c a t n ct f as)
  show ?case by auto
next
  case (4 c a t cs)
  then show ?case by simp
next
  case (5 c e)
  then show ?case by (cases "node_ptr e \<in> visited_csr c") auto
next
  case (6 c)
  show ?case by simp
next
  case (7 c e es)
  from "7.IH" show ?case by auto
qed

lemma accept_all_csr_subset:
  "func (accept_all_csr c es) = func c \<and>
   calls (accept_all_csr c es) \<subseteq> calls c \<union> (\<Union>e\<in>set es. spec_self_call_nodes (func c) e)"
proof (induction es arbitrary: c)
  case Nil
  show ?case by simp
next
  case (Cons e es)
  from Cons.IH[of "accept_csr c e"] csr_subset(1)[of c e] show ?case by auto
qed

text \<open>
  What the code does with the set it has collected: on success the reference count has
  gone down by the number of collected nodes, without passing through zero.
\<close>

lemma update_ref_count:
  assumes "Function_define_reduction P as0 vals s = Inr s'"
  shows "\<exists>r. reductions (contents s') = reductions (contents s) @ [r] \<and>
     ref_count (contents s') =
       ref_count (contents s) -
       int (card (calls (accept_all_csr (CountSelfReferences_init (contents_ptr (contents s)))
                           (r_args r @ r_values r)))) \<and>
     \<not> (0 < ref_count (contents s) \<and>
        ref_count (contents s) \<le>
          int (card (calls (accept_all_csr
                 (CountSelfReferences_init (contents_ptr (contents s)))
                 (r_args r @ r_values r)))))"
  using assms
proof (cases rule: define_reduction_InrE)
  case (Update f as2 vals1 pargs check as3 vals3 counter rc r)
  have a: "reductions (contents s') = reductions (contents s) @ [r]"
    unfolding Update(11) Update(1) by simp
  have c: "counter = accept_all_csr (CountSelfReferences_init (contents_ptr (contents s)))
                           (r_args r @ r_values r)"
    using Update(1,8,10) by simp
  from Update(9) have "\<not> (0 < ref_count f \<and> ref_count f \<le> int (card (calls counter)))"
    and "rc = ref_count f - int (card (calls counter))"
    by (auto simp: decrement_loop_eq split: if_splits)
  moreover have "ref_count (contents s') = rc" unfolding Update(11) by simp
  ultimately show ?thesis using a unfolding c Update(1) by blast
qed

lemma ex_nested_run:
  "Function_define_reduction ex_passes [Some ex_x, Some ex_y] [Some ex_nested] ex_state =
     Inr ex_nested_done"
  by (simp add: run_defs ex_defs upt_rec)

text \<open>
  C1 at the update \<open>f(x, y) = sin(f(x, y))\<close>. The expression graph holds one call node
  whose target is the function, at address 4. The counter collects no node, the reference
  count is not decremented, and the update is even reported as containing no self
  reference.
\<close>

theorem nested_self_call_missed:
  "(\<Union>e\<in>set [ex_x, ex_y, ex_nested]. spec_self_call_nodes 100 e) = {4} \<and>
   calls (accept_all_csr (CountSelfReferences_init 100) [ex_x, ex_y, ex_nested]) = {} \<and>
   Function_define_reduction ex_passes [Some ex_x, Some ex_y] [Some ex_nested] ex_state =
     Inr ex_nested_done \<and>
   ref_count (contents ex_nested_done) = ref_count (contents ex_state) \<and>
   cerr ex_nested_done = [HidesEarlierDefinitions 0 ''f'']"
  using ex_nested_run
  by (simp add: ex_defs CountSelfReferences_init_def)

lemma ex_counted_run:
  "calls (accept_all_csr (CountSelfReferences_init 100)
     [ex_x, ex_i, Other 8 ex_int [ex_call 4 [ex_x, ex_i], Other 9 ex_int []]]) = {4} \<and>
   ref_count (contents ex_updated) = ref_count (contents ex_state) - 1"
  by (simp add: ex_defs CountSelfReferences_init_def)

text \<open>A count that reaches zero ends the call, with the count left at zero.\<close>

lemma ex_cycle_violation_run:
  "Function_define_reduction ex_passes [Some ex_x, Some ex_i] ex_update_values
     (ex_state\<lparr>contents := ex_contents\<lparr>ref_count := 1\<rparr>\<rparr>) =
   Inl (CycleAccountingViolation,
        ex_state\<lparr>rand_counter := 1, contents := ex_contents\<lparr>ref_count := 0\<rparr>\<rparr>)"
  by (simp add: run_defs ex_defs upt_rec)

end
